theory Spec2Isabelle
  imports Main "HOL-Library.Sublist" "HOL-Library.AList"
begin

section \<open>Constants of the ingestion engine\<close>

text \<open>
  The limits and denylists of \<^verbatim>\<open>r1.py\<close>, lines 20 to 35. Python strings are modelled by
  their UTF-8 encoding, a list of 8-bit characters; the two sets are lists used through
  \<open>set\<close>.
\<close>

definition MAX_FILE_SIZE :: nat where
  "MAX_FILE_SIZE = 5000000"

definition MAX_FILES_TO_PROCESS :: nat where
  "MAX_FILES_TO_PROCESS = 1000"

definition EXCLUDED_FILES :: "string list" where
  "EXCLUDED_FILES =
    [''.DS_Store'', ''Thumbs.db'', ''.gitignore'', ''.python-version'', ''uv.lock'', ''.uv'',
     ''uvenv'', ''.uvenv'', ''.venv'', ''venv'', ''__pycache__'', ''.pytest_cache'',
     ''.coverage'', ''.mypy_cache'', ''node_modules'', ''package-lock.json'', ''yarn.lock'',
     ''pnpm-lock.yaml'', ''.next'', ''.nuxt'', ''dist'', ''build'', ''.cache'',
     ''.parcel-cache'', ''.turbo'', ''.vercel'', ''.output'', ''.contentlayer'', ''out'',
     ''coverage'', ''.nyc_output'', ''storybook-static'', ''.env'', ''.env.local'',
     ''.env.development'', ''.env.production'', ''.git'', ''.svn'', ''.hg'', ''CVS'']"

definition EXCLUDED_EXTENSIONS :: "string list" where
  "EXCLUDED_EXTENSIONS =
    [''.png'', ''.jpg'', ''.jpeg'', ''.gif'', ''.ico'', ''.svg'', ''.webp'', ''.avif'',
     ''.mp4'', ''.webm'', ''.mov'', ''.mp3'', ''.wav'', ''.ogg'', ''.zip'', ''.tar'', ''.gz'',
     ''.7z'', ''.rar'', ''.exe'', ''.dll'', ''.so'', ''.dylib'', ''.bin'', ''.pdf'', ''.doc'',
     ''.docx'', ''.xls'', ''.xlsx'', ''.ppt'', ''.pptx'', ''.pyc'', ''.pyo'', ''.pyd'',
     ''.egg'', ''.whl'', ''.uv'', ''.uvenv'', ''.db'', ''.sqlite'', ''.sqlite3'', ''.log'',
     ''.idea'', ''.vscode'', ''.map'', ''.chunk.js'', ''.chunk.css'', ''.min.js'',
     ''.min.css'', ''.bundle.js'', ''.bundle.css'', ''.cache'', ''.tmp'', ''.temp'', ''.ttf'',
     ''.otf'', ''.woff'', ''.woff2'', ''.eot'']"

section \<open>Exceptions\<close>

text \<open>
  The Python exceptions that the modelled functions raise or catch. \<open>is_OSError\<close> and
  \<open>is_ValueError\<close> are the subclass tests of the \<^verbatim>\<open>except\<close> clauses:
  \<^verbatim>\<open>UnicodeDecodeError\<close> is a \<^verbatim>\<open>ValueError\<close> and not an \<^verbatim>\<open>OSError\<close>.
\<close>

datatype error =
    FileNotFoundError
  | IsADirectoryError
  | NotADirectoryError
  | FileExistsError
  | UnicodeDecodeError
  | ValueError

fun is_OSError :: "error \<Rightarrow> bool" where
  "is_OSError FileNotFoundError = True"
| "is_OSError IsADirectoryError = True"
| "is_OSError NotADirectoryError = True"
| "is_OSError FileExistsError = True"
| "is_OSError UnicodeDecodeError = False"
| "is_OSError ValueError = False"

fun is_ValueError :: "error \<Rightarrow> bool" where
  "is_ValueError UnicodeDecodeError = True"
| "is_ValueError ValueError = True"
| "is_ValueError _ = False"

section \<open>The file system\<close>

text \<open>
  A path is the list of its components below the file-system root. A node is a regular
  file with its bytes or a directory with its listing, in the order in which the
  operating system enumerates it. There are no symbolic links and no permissions in the
  model, and the system is POSIX: the separator is \<^verbatim>\<open>/\<close> and the line separator is LF.
  \<open>lookup\<close> follows a path from a node and fails as the system calls do.
\<close>

type_synonym path = "string list"

datatype node = File string | Dir "(string \<times> node) list"

fun lookup :: "path \<Rightarrow> node \<Rightarrow> error + node" where
  "lookup [] n = Inr n"
| "lookup (c # cs) (File bs) = Inl NotADirectoryError"
| "lookup (c # cs) (Dir l) =
    (case map_of l c of None \<Rightarrow> Inl FileNotFoundError | Some n \<Rightarrow> lookup cs n)"

definition isdir :: "node \<Rightarrow> path \<Rightarrow> bool" where
  "isdir t p = (case lookup p t of Inr (Dir l) \<Rightarrow> True | _ \<Rightarrow> False)"

subsection \<open>Decoding UTF-8\<close>

text \<open>
  \<^verbatim>\<open>open(file_path, "r", encoding="utf-8")\<close> decodes strictly: \<open>utf8_valid\<close> accepts the
  well-formed byte sequences of the Unicode standard (no overlong forms, no surrogates,
  nothing above U+10FFFF), and reading any other file raises \<^verbatim>\<open>UnicodeDecodeError\<close>.
\<close>

definition byte_in :: "nat \<Rightarrow> nat \<Rightarrow> char \<Rightarrow> bool" where
  "byte_in lo hi c = (lo \<le> (of_char c :: nat) \<and> (of_char c :: nat) \<le> hi)"

fun utf8_valid :: "string \<Rightarrow> bool" where
  "utf8_valid [] = True"
| "utf8_valid (b # bs) =
    (if byte_in 0 127 b then utf8_valid bs
     else if byte_in 194 223 b then
       (case bs of c1 # r \<Rightarrow> byte_in 128 191 c1 \<and> utf8_valid r | _ \<Rightarrow> False)
     else if byte_in 224 239 b then
       (case bs of c1 # c2 # r \<Rightarrow>
          byte_in (if of_char b = (224::nat) then 160 else 128)
                  (if of_char b = (237::nat) then 159 else 191) c1
          \<and> byte_in 128 191 c2 \<and> utf8_valid r
        | _ \<Rightarrow> False)
     else if byte_in 240 244 b then
       (case bs of c1 # c2 # c3 # r \<Rightarrow>
          byte_in (if of_char b = (240::nat) then 144 else 128)
                  (if of_char b = (244::nat) then 143 else 191) c1
          \<and> byte_in 128 191 c2 \<and> byte_in 128 191 c3 \<and> utf8_valid r
        | _ \<Rightarrow> False)
     else False)"

subsection \<open>Reading and writing\<close>

text \<open>
  The file is opened in text mode without a \<^verbatim>\<open>newline\<close> argument, so reading applies
  universal newlines: each CR LF pair and each remaining CR becomes one LF. Writing in
  that mode turns LF into the line separator of the system, which is LF, so a write
  stores the text as it is.
\<close>

fun universal_newlines :: "string \<Rightarrow> string" where
  "universal_newlines [] = []"
| "universal_newlines [c] = [if c = CHR 0x0D then CHR 0x0A else c]"
| "universal_newlines (c # d # cs) =
    (if c = CHR 0x0D then
       (if d = CHR 0x0A then CHR 0x0A # universal_newlines cs
        else CHR 0x0A # universal_newlines (d # cs))
     else c # universal_newlines (d # cs))"

text \<open>
  \<^verbatim>\<open>read_local_file\<close> (lines 100 to 103): \<open>read_node\<close> is what opening and reading gives
  for the node that the path denotes, the decoded text with its line ends translated.
\<close>

definition read_node :: "error + node \<Rightarrow> error + string" where
  "read_node n =
    (case n of
       Inl e \<Rightarrow> Inl e
     | Inr (Dir l) \<Rightarrow> Inl IsADirectoryError
     | Inr (File bs) \<Rightarrow>
         if utf8_valid bs then Inr (universal_newlines bs) else Inl UnicodeDecodeError)"

definition read_local_file :: "node \<Rightarrow> path \<Rightarrow> error + string" where
  "read_local_file t file_path = read_node (lookup file_path t)"

text \<open>
  \<open>write_at\<close> is \<^verbatim>\<open>file_path.parent.mkdir(parents=True, exist_ok=True)\<close> followed by
  \<^verbatim>\<open>open(file_path, "w")\<close> and the write, on the listing of a directory: missing parent
  directories are created, a file in the place of a directory or a directory in the place
  of the file is an \<^verbatim>\<open>OSError\<close>, and an existing file is replaced where it stands.
\<close>

fun write_at :: "path \<Rightarrow> string \<Rightarrow> (string \<times> node) list \<Rightarrow> error + (string \<times> node) list" where
  "write_at [] content l = Inl IsADirectoryError"
| "write_at [c] content l =
    (case map_of l c of
       Some (Dir l') \<Rightarrow> Inl IsADirectoryError
     | _ \<Rightarrow> Inr (AList.update c (File content) l))"
| "write_at (c # d # cs) content l =
    (case map_of l c of
       None \<Rightarrow>
         (case write_at (d # cs) content [] of
            Inl e \<Rightarrow> Inl e
          | Inr l' \<Rightarrow> Inr (AList.update c (Dir l') l))
     | Some (File bs) \<Rightarrow> Inl (if cs = [] then FileExistsError else NotADirectoryError)
     | Some (Dir l0) \<Rightarrow>
         (case write_at (d # cs) content l0 of
            Inl e \<Rightarrow> Inl e
          | Inr l' \<Rightarrow> Inr (AList.update c (Dir l') l)))"

text \<open>
  The disk is the listing of the root directory together with the log of the writes
  performed on it, which exists only to state that a write happened.
\<close>

record disk =
  root_dir :: "(string \<times> node) list"
  writes :: "(path \<times> string) list"

definition tree :: "disk \<Rightarrow> node" where
  "tree d = Dir (root_dir d)"

text \<open>\<^verbatim>\<open>create_file\<close> (lines 105 to 111).\<close>

definition create_file :: "path \<Rightarrow> string \<Rightarrow> disk \<Rightarrow> error + disk" where
  "create_file file_path content d =
    (case write_at file_path content (root_dir d) of
       Inl e \<Rightarrow> Inl e
     | Inr l' \<Rightarrow> Inr (d\<lparr>root_dir := l', writes := writes d @ [(file_path, content)]\<rparr>))"

subsection \<open>Editing\<close>

text \<open>
  \<open>replace1 content old new\<close> is Python's \<^verbatim>\<open>content.replace(old, new, 1)\<close>: the leftmost
  occurrence of \<open>old\<close> is replaced, and a string without an occurrence is returned as it
  is. The empty string occurs at position 0 of every string.
\<close>

fun replace1 :: "string \<Rightarrow> string \<Rightarrow> string \<Rightarrow> string" where
  "replace1 [] old new = (if old = [] then new else [])"
| "replace1 (c # cs) old new =
    (if prefix old (c # cs) then new @ drop (length old) (c # cs)
     else c # replace1 cs old new)"

text \<open>
  What \<^verbatim>\<open>apply_diff_edit\<close> prints: one of its three messages.
\<close>

datatype edit_report = AppliedDiffEdit | FileNotFoundReported | NoChangesMade

text \<open>
  \<^verbatim>\<open>apply_diff_edit\<close> (lines 113 to 123). The body of the \<^verbatim>\<open>try\<close> reads, replaces and
  writes; \<^verbatim>\<open>FileNotFoundError\<close> and \<^verbatim>\<open>ValueError\<close> are caught and reported, any other
  exception leaves the function (\<open>Inl\<close>).
\<close>

definition apply_diff_edit :: "path \<Rightarrow> string \<Rightarrow> string \<Rightarrow> disk \<Rightarrow> error + (edit_report \<times> disk)" where
  "apply_diff_edit path original_snippet new_snippet d =
    (case (case read_local_file (tree d) path of
             Inl e \<Rightarrow> Inl e
           | Inr content \<Rightarrow> create_file path (replace1 content original_snippet new_snippet) d) of
       Inr d' \<Rightarrow> Inr (AppliedDiffEdit, d')
     | Inl e \<Rightarrow>
         if e = FileNotFoundError then Inr (FileNotFoundReported, d)
         else if is_ValueError e then Inr (NoChangesMade, d)
         else Inl e)"

text \<open>
  Two disks with one file each, for the examples of editing. The file of the second has a
  CR LF line end.
\<close>

definition edit_disk :: disk where
  "edit_disk = \<lparr>root_dir = [(''home'', Dir [(''notes.txt'', File ''A-B-A'')])], writes = []\<rparr>"

definition crlf_disk :: disk where
  "crlf_disk =
    \<lparr>root_dir = [(''home'', Dir [(''dos.txt'', File [CHR ''A'', CHR 0x0D, CHR 0x0A, CHR ''B''])])],
     writes = []\<rparr>"

section \<open>Path normalisation\<close>

text \<open>
  \<^verbatim>\<open>Path(path_str)\<close> splits the string at \<^verbatim>\<open>/\<close> and drops empty components and \<^verbatim>\<open>.\<close>;
  it keeps \<^verbatim>\<open>..\<close>. \<^verbatim>\<open>resolve()\<close> makes the path absolute, prefixing the working directory
  to a relative path, and removes each \<^verbatim>\<open>..\<close> together with the component before it
  (at the root, \<^verbatim>\<open>/..\<close> is \<^verbatim>\<open>/\<close>). Without symbolic links that is all it does.
\<close>

fun split_slash :: "string \<Rightarrow> string list" where
  "split_slash [] = [[]]"
| "split_slash (c # cs) =
    (if c = CHR ''/'' then [] # split_slash cs
     else (case split_slash cs of [] \<Rightarrow> [[c]] | w # ws \<Rightarrow> (c # w) # ws))"

definition path_parts :: "string \<Rightarrow> string list" where
  "path_parts s = filter (\<lambda>c. c \<noteq> [] \<and> c \<noteq> ''.'') (split_slash s)"

definition is_absolute :: "string \<Rightarrow> bool" where
  "is_absolute s = (case s of [] \<Rightarrow> False | c # cs \<Rightarrow> c = CHR ''/'')"

fun collapse :: "path \<Rightarrow> string list \<Rightarrow> path" where
  "collapse acc [] = acc"
| "collapse acc (c # cs) =
    (if c = ''..'' then collapse (butlast acc) cs else collapse (acc @ [c]) cs)"

definition resolve :: "path \<Rightarrow> string \<Rightarrow> path" where
  "resolve cwd s = collapse [] ((if is_absolute s then [] else cwd) @ path_parts s)"

text \<open>\<^verbatim>\<open>normalize_path\<close> (lines 199 to 204), in the working directory \<open>cwd\<close>.\<close>

definition normalize_path :: "path \<Rightarrow> string \<Rightarrow> error + path" where
  "normalize_path cwd path_str =
    (let path = resolve cwd path_str
     in if ''..'' \<in> set path then Inl ValueError else Inr path)"

text \<open>The string of an absolute path, as \<^verbatim>\<open>str(path)\<close> and \<^verbatim>\<open>os.path.join\<close> give it.\<close>

definition path_str :: "path \<Rightarrow> string" where
  "path_str p = (if p = [] then ''/'' else concat (map (\<lambda>c. CHR ''/'' # c) p))"

section \<open>The conversation\<close>

datatype role = System | User | Assistant

type_synonym entry = "role \<times> string"

text \<open>
  The entry that \<^verbatim>\<open>add_file_to_conversation\<close> appends (lines 129 to 132): the path
  between apostrophes, a colon, an empty line and the content.
\<close>

definition file_entry :: "path \<Rightarrow> string \<Rightarrow> entry" where
  "file_entry file_path content =
    (System, ''Content of file '' @ [CHR 0x27] @ path_str file_path @ [CHR 0x27] @ '':''
             @ [CHR 0x0A, CHR 0x0A] @ content)"

text \<open>
  \<^verbatim>\<open>add_file_to_conversation\<close> (lines 125 to 135). An \<^verbatim>\<open>OSError\<close> of the read is caught
  and printed and the history stays as it is; any other exception leaves the function.
  The report is which of the two messages was printed.
  \<open>add_file_core\<close> takes the node that the path denotes, so that the directory walk, which
  has the node in hand, shares it.
\<close>

datatype file_report = AddedFile | CouldNotAddFile error

definition add_file_core :: "error + node \<Rightarrow> path \<Rightarrow> entry list \<Rightarrow> error + (file_report \<times> entry list)" where
  "add_file_core n file_path history =
    (case read_node n of
       Inr content \<Rightarrow> Inr (AddedFile, history @ [file_entry file_path content])
     | Inl e \<Rightarrow> if is_OSError e then Inr (CouldNotAddFile e, history) else Inl e)"

definition add_file_to_conversation ::
  "node \<Rightarrow> path \<Rightarrow> entry list \<Rightarrow> error + (file_report \<times> entry list)" where
  "add_file_to_conversation t file_path history =
    add_file_core (lookup file_path t) file_path history"

section \<open>Directory ingestion\<close>

text \<open>
  The state of \<^verbatim>\<open>add_directory_to_conversation\<close> (lines 137 to 189): the conversation, the
  two report lists, the counter, whether the outer loop has printed the limit warning and
  left by \<^verbatim>\<open>break\<close>, and a log of the file operations of the walk, kept only to state
  which files were touched.
\<close>

datatype io_op = Getsize | OpenBinary | OpenText

datatype skipped = Skipped path | ExceedsSizeLimit path

record walk_state =
  conversation_history :: "entry list"
  skipped_files :: "skipped list"
  added_files :: "path list"
  total_files_processed :: nat
  limit_warned :: bool
  io_log :: "(io_op \<times> path) list"

definition skip :: "skipped \<Rightarrow> walk_state \<Rightarrow> walk_state" where
  "skip s st = st\<lparr>skipped_files := skipped_files st @ [s]\<rparr>"

definition log_io :: "io_op \<Rightarrow> path \<Rightarrow> walk_state \<Rightarrow> walk_state" where
  "log_io op p st = st\<lparr>io_log := io_log st @ [(op, p)]\<rparr>"

text \<open>\<^verbatim>\<open>name.startswith('.')\<close>.\<close>

definition startswith_dot :: "string \<Rightarrow> bool" where
  "startswith_dot name = (case name of [] \<Rightarrow> False | c # cs \<Rightarrow> c = CHR ''.'')"

definition excluded_name :: "string \<Rightarrow> bool" where
  "excluded_name name = (startswith_dot name \<or> name \<in> set EXCLUDED_FILES)"

text \<open>
  The extension that \<^verbatim>\<open>os.path.splitext\<close> gives for a name without separators: the part
  from the last dot on, unless every character before that dot is a dot too.
\<close>

definition splitext_ext :: "string \<Rightarrow> string" where
  "splitext_ext p =
    (let front = rev (dropWhile (\<lambda>c. c \<noteq> CHR ''.'') (rev p));
         suffix = rev (takeWhile (\<lambda>c. c \<noteq> CHR ''.'') (rev p))
     in if front = [] then []
        else if list_ex (\<lambda>c. c \<noteq> CHR ''.'') (butlast front) then CHR ''.'' # suffix
        else [])"

definition lower_char :: "char \<Rightarrow> char" where
  "lower_char c = (if byte_in 65 90 c then char_of ((of_char c :: nat) + 32) else c)"

definition excluded_extension :: "string \<Rightarrow> bool" where
  "excluded_extension file = (map lower_char (splitext_ext file) \<in> set EXCLUDED_EXTENSIONS)"

text \<open>\<^verbatim>\<open>is_binary_file\<close> (lines 191 to 197) on the bytes of the file.\<close>

definition is_binary_file :: "string \<Rightarrow> bool" where
  "is_binary_file bs = (CHR 0x00 \<in> set (take 1024 bs))"

text \<open>
  The body of the \<^verbatim>\<open>try\<close> of lines 165 to 176 for the file \<open>full_path\<close> with bytes \<open>bs\<close>.
  The result is the exception that leaves the block, if any, and the state reached.
\<close>

definition try_body :: "path \<Rightarrow> string \<Rightarrow> walk_state \<Rightarrow> error option \<times> walk_state" where
  "try_body full_path bs st =
    (let st1 = log_io Getsize full_path st in
     if length bs > MAX_FILE_SIZE then (None, skip (ExceedsSizeLimit full_path) st1)
     else
       let st2 = log_io OpenBinary full_path st1 in
       if is_binary_file bs then (None, skip (Skipped full_path) st2)
       else
         let st3 = log_io OpenText full_path st2 in
         (case add_file_core (Inr (File bs)) full_path (conversation_history st3) of
            Inl e \<Rightarrow> (Some e, st3)
          | Inr (report, h) \<Rightarrow>
              (None, st3\<lparr>conversation_history := h,
                         added_files := added_files st3 @ [full_path],
                         total_files_processed := total_files_processed st3 + 1\<rparr>)))"

text \<open>One round of the inner loop after its limit test (lines 155 to 178).\<close>

definition process_file :: "path \<Rightarrow> string \<Rightarrow> string \<Rightarrow> walk_state \<Rightarrow> error option \<times> walk_state" where
  "process_file root file bs st =
    (if startswith_dot file \<or> file \<in> set EXCLUDED_FILES then (None, skip (Skipped (root @ [file])) st)
     else if excluded_extension file then (None, skip (Skipped (root @ [file])) st)
     else
       (case try_body (root @ [file]) bs st of
          (None, st') \<Rightarrow> (None, st')
        | (Some e, st') \<Rightarrow>
            if is_OSError e then (None, skip (Skipped (root @ [file])) st') else (Some e, st')))"

text \<open>The inner loop (lines 151 to 178) over the files of one directory.\<close>

fun process_files :: "path \<Rightarrow> (string \<times> string) list \<Rightarrow> walk_state \<Rightarrow> error option \<times> walk_state" where
  "process_files root [] st = (None, st)"
| "process_files root ((file, bs) # rest) st =
    (if total_files_processed st \<ge> MAX_FILES_TO_PROCESS then (None, st)
     else
       (case process_file root file bs st of
          (Some e, st') \<Rightarrow> (Some e, st')
        | (None, st') \<Rightarrow> process_files root rest st'))"

text \<open>The regular files of a listing, as \<^verbatim>\<open>os.walk\<close> hands them over.\<close>

fun files_of :: "(string \<times> node) list \<Rightarrow> (string \<times> string) list" where
  "files_of [] = []"
| "files_of ((name, File bs) # l) = (name, bs) # files_of l"
| "files_of ((name, Dir l') # l) = files_of l"

text \<open>
  The outer loop over \<^verbatim>\<open>os.walk(directory_path)\<close> (lines 144 to 178). \<open>walk root n st\<close> is
  the round for the directory \<open>root\<close> followed by the rounds for the directories below
  it, top down: the generator yields a directory, the loop body prunes the child
  directories and handles the files, and the generator then descends into the children
  that are left, in order. \<open>walk_subdirs\<close> goes through the listing and passes over the
  files and the pruned directories. Once the loop has left by \<^verbatim>\<open>break\<close> nothing more
  happens.
\<close>

fun walk :: "path \<Rightarrow> node \<Rightarrow> walk_state \<Rightarrow> error option \<times> walk_state"
  and walk_subdirs :: "path \<Rightarrow> (string \<times> node) list \<Rightarrow> walk_state \<Rightarrow> error option \<times> walk_state"
where
  "walk root (File bs) st = (None, st)"
| "walk root (Dir l) st =
    (if limit_warned st then (None, st)
     else if total_files_processed st \<ge> MAX_FILES_TO_PROCESS then (None, st\<lparr>limit_warned := True\<rparr>)
     else
       (case process_files root (files_of l) st of
          (Some e, st') \<Rightarrow> (Some e, st')
        | (None, st') \<Rightarrow> walk_subdirs root l st'))"
| "walk_subdirs root [] st = (None, st)"
| "walk_subdirs root ((d, n) # rest) st =
    (case n of
       File bs \<Rightarrow> walk_subdirs root rest st
     | Dir l \<Rightarrow>
         if startswith_dot d \<or> d \<in> set EXCLUDED_FILES then walk_subdirs root rest st
         else
           (case walk (root @ [d]) n st of
              (Some e, st') \<Rightarrow> (Some e, st')
            | (None, st') \<Rightarrow> walk_subdirs root rest st'))"

text \<open>
  \<^verbatim>\<open>add_directory_to_conversation\<close>: the walk from \<open>directory_path\<close> with empty report
  lists. The result is the exception that leaves the function, if any, and the final
  state, whose lists are what the report prints.
\<close>

definition init_walk :: "entry list \<Rightarrow> walk_state" where
  "init_walk history =
    \<lparr>conversation_history = history, skipped_files = [], added_files = [],
     total_files_processed = 0, limit_warned = False, io_log = []\<rparr>"

definition add_directory_to_conversation :: "node \<Rightarrow> path \<Rightarrow> entry list \<Rightarrow> error option \<times> walk_state" where
  "add_directory_to_conversation t directory_path history =
    (case lookup directory_path t of
       Inl e \<Rightarrow> (None, init_walk history)
     | Inr n \<Rightarrow> walk directory_path n (init_walk history))"

section \<open>The \<^verbatim>\<open>/add\<close> command\<close>

text \<open>
  The \<^verbatim>\<open>/add\<close> branch of \<^verbatim>\<open>main\<close> (lines 233 to 243) in the working directory \<open>cwd\<close> on
  the tree \<open>t\<close>. Every exception of the model is an \<^verbatim>\<open>OSError\<close> or a \<^verbatim>\<open>ValueError\<close>, so
  the \<^verbatim>\<open>except\<close> clause catches whatever arrives and the loop goes on; what the walk has
  appended to the conversation before an exception stays there.
\<close>

datatype add_report =
    CouldNotAddPath error
  | AddedFolder "path list" "skipped list"
  | SingleFile file_report

definition add_path :: "path \<Rightarrow> node \<Rightarrow> string \<Rightarrow> entry list \<Rightarrow> add_report \<times> entry list" where
  "add_path cwd t path_to_add history =
    (case normalize_path cwd path_to_add of
       Inl e \<Rightarrow> (CouldNotAddPath e, history)
     | Inr normalized_path \<Rightarrow>
         if isdir t normalized_path then
           (case add_directory_to_conversation t normalized_path history of
              (Some e, st) \<Rightarrow> (CouldNotAddPath e, conversation_history st)
            | (None, st) \<Rightarrow>
                (AddedFolder (added_files st) (skipped_files st), conversation_history st))
         else
           (case add_file_to_conversation t normalized_path history of
              Inl e \<Rightarrow> (CouldNotAddPath e, history)
            | Inr (report, h) \<Rightarrow> (SingleFile report, h)))"

section \<open>Notions used by the properties of the walk\<close>

text \<open>
  A file is eligible when it passes the four tests that the walk applies before reading
  it: name, extension, size and the sniff for a NUL byte.
\<close>

definition eligible :: "string \<Rightarrow> string \<Rightarrow> bool" where
  "eligible file bs =
    (\<not> excluded_name file \<and> \<not> excluded_extension file
     \<and> length bs \<le> MAX_FILE_SIZE \<and> \<not> is_binary_file bs)"

text \<open>
  The number of eligible files in a list of files, and in a tree outside the pruned
  directories.
\<close>

definition eligible_files :: "(string \<times> string) list \<Rightarrow> nat" where
  "eligible_files fs = length (filter (\<lambda>(file, bs). eligible file bs) fs)"

fun eligible_count :: "node \<Rightarrow> nat"
  and eligible_count_subdirs :: "(string \<times> node) list \<Rightarrow> nat"
where
  "eligible_count (File bs) = 0"
| "eligible_count (Dir l) =
    eligible_files (files_of l) + eligible_count_subdirs l"
| "eligible_count_subdirs [] = 0"
| "eligible_count_subdirs ((d, n) # rest) =
    (case n of
       File bs \<Rightarrow> 0
     | Dir l \<Rightarrow> if excluded_name d then 0 else eligible_count n)
    + eligible_count_subdirs rest"

text \<open>Every eligible file of the tree decodes as UTF-8.\<close>

fun text_files :: "(string \<times> string) list \<Rightarrow> bool" where
  "text_files [] = True"
| "text_files ((file, bs) # rest) = ((eligible file bs \<longrightarrow> utf8_valid bs) \<and> text_files rest)"

fun text_tree :: "node \<Rightarrow> bool"
  and text_subdirs :: "(string \<times> node) list \<Rightarrow> bool"
where
  "text_tree (File bs) = True"
| "text_tree (Dir l) = (text_files (files_of l) \<and> text_subdirs l)"
| "text_subdirs [] = True"
| "text_subdirs ((d, n) # rest) = (text_tree n \<and> text_subdirs rest)"

text \<open>
  The paths that a state of the walk has touched: those of its file operations and
  those recorded in its two report lists.
\<close>

fun skipped_path :: "skipped \<Rightarrow> path" where
  "skipped_path (Skipped p) = p"
| "skipped_path (ExceedsSizeLimit p) = p"

definition touched :: "walk_state \<Rightarrow> path set" where
  "touched st =
    snd ` set (io_log st) \<union> set (added_files st) \<union> skipped_path ` set (skipped_files st)"

text \<open>
  \<open>under_pruned root p\<close>: the path \<open>p\<close> lies below \<open>root\<close> and inside a directory, at any
  depth under \<open>root\<close>, whose name the walk prunes: some component of the path relative
  to \<open>root\<close>, other than the last, is an excluded name.
\<close>

definition under_pruned :: "path \<Rightarrow> path \<Rightarrow> bool" where
  "under_pruned root p =
    (prefix root p \<and> list_ex excluded_name (butlast (drop (length root) p)))"

text \<open>Some trees for the examples.\<close>

definition latin1_tree :: node where
  "latin1_tree =
    Dir [(''proj'',
          Dir [(''a.txt'', File [CHR ''c'', CHR ''a'', CHR ''f'', CHR 0xE9]),
               (''b.txt'', File ''ok'')])]"

definition secret_tree :: node where
  "secret_tree =
    Dir [(''home'',
          Dir [(''user'', Dir []),
               (''.env'', File [CHR ''K'', CHR ''='', CHR 0x00, CHR ''1''])])]"

definition crlf_tree :: node where
  "crlf_tree = Dir [(''home'', Dir [(''dos.txt'', File [CHR ''A'', CHR 0x0D, CHR 0x0A, CHR ''B''])])]"

definition pruned_tree :: node where
  "pruned_tree =
    Dir [(''proj'',
          Dir [(''main.py'', File ''print(1)''),
               (''node_modules'', Dir [(''lib.js'', File ''x'')]),
               (''src'', Dir [(''.git'', Dir [(''config'', File ''y'')]),
                              (''util.py'', File ''z'')])])]"

text \<open>
  The state after the walk has accepted the file \<open>p\<close> with bytes \<open>bs\<close>: three file
  operations, one entry in the conversation with the text read, one path in the list of
  added files, and the counter one higher.
\<close>

definition accepted :: "path \<Rightarrow> string \<Rightarrow> walk_state \<Rightarrow> walk_state" where
  "accepted p bs st =
    st\<lparr>io_log := io_log st @ [(Getsize, p), (OpenBinary, p), (OpenText, p)],
       conversation_history := conversation_history st @ [file_entry p (universal_newlines bs)],
       added_files := added_files st @ [p],
       total_files_processed := total_files_processed st + 1\<rparr>"

text \<open>
  A directory \<^verbatim>\<open>/big\<close> with the 1001 empty files \<^verbatim>\<open>file0000\<close> to \<^verbatim>\<open>file1000\<close> and no
  subdirectory.
\<close>

definition digit :: "nat \<Rightarrow> char" where
  "digit k = char_of (48 + k)"

definition flat_name :: "nat \<Rightarrow> string" where
  "flat_name i =
    ''file'' @ [digit (i div 1000), digit (i div 100 mod 10), digit (i div 10 mod 10),
                digit (i mod 10)]"

definition flat_files :: "(string \<times> node) list" where
  "flat_files = map (\<lambda>i. (flat_name i, File [])) [0..<1001]"

definition flat_tree :: node where
  "flat_tree = Dir [(''big'', Dir flat_files)]"

text \<open>
  For the proof that the walk stays out of the pruned directories: \<open>inside root\<close> are
  the paths strictly below \<open>root\<close> that are not under a pruned directory, and
  \<open>stays_inside root st st'\<close> says that from \<open>st\<close> to \<open>st'\<close> only such paths were touched
  and only entries of such paths were appended to the conversation.
\<close>

definition inside :: "path \<Rightarrow> path set" where
  "inside root = {p. strict_prefix root p \<and> \<not> under_pruned root p}"

definition entries_inside :: "path \<Rightarrow> entry set" where
  "entries_inside root = {file_entry q c |q c. q \<in> inside root}"

definition stays_inside :: "path \<Rightarrow> walk_state \<Rightarrow> walk_state \<Rightarrow> bool" where
  "stays_inside root st st' =
    (touched st' \<subseteq> touched st \<union> inside root
     \<and> set (conversation_history st') \<subseteq> set (conversation_history st) \<union> entries_inside root)"

text \<open>
  For the proof of the file limit: the counter never exceeds the limit and the warning
  is printed only at the limit; \<open>advanced k st st'\<close> says that from \<open>st\<close> to \<open>st'\<close> the
  counter moved by \<open>k\<close> files or up to the limit, and the list of added files grew by as
  many paths as the counter moved.
\<close>

definition walk_inv :: "walk_state \<Rightarrow> bool" where
  "walk_inv st =
    (total_files_processed st \<le> MAX_FILES_TO_PROCESS
     \<and> (limit_warned st \<longrightarrow> total_files_processed st = MAX_FILES_TO_PROCESS))"

definition advanced :: "nat \<Rightarrow> walk_state \<Rightarrow> walk_state \<Rightarrow> bool" where
  "advanced k st st' =
    (total_files_processed st' = min MAX_FILES_TO_PROCESS (total_files_processed st + k)
     \<and> length (added_files st') + total_files_processed st
         = length (added_files st) + total_files_processed st')"

section \<open>The model's response\<close>

text \<open>
  The pydantic models of lines 55 to 67: a creation has a path and a content, an edit a
  path, the original snippet and the new snippet, and a response the reply and two
  optional lists.
\<close>

datatype FileToCreate = FileToCreate string string

datatype FileToEdit = FileToEdit string string string

datatype AssistantResponse =
  AssistantResponse string "FileToCreate list option" "FileToEdit list option"

text \<open>A JSON value, the raw payload of the model after parsing.\<close>

datatype json =
    JNull
  | JBool bool
  | JNumber int
  | JString string
  | JArray "json list"
  | JObject "(string \<times> json) list"

datatype schema_error = SchemaError

text \<open>
  Modelled from the spec: \<^verbatim>\<open>main\<close> calls \<^verbatim>\<open>stream_openai_response\<close>, which \<^verbatim>\<open>r1.py\<close> does
  not define. \<open>text_field\<close> is the strict test for a text field of section 4.3: the
  field is there and is a string.
\<close>

definition text_field :: "(string \<times> json) list \<Rightarrow> string \<Rightarrow> string option" where
  "text_field obj name =
    (case map_of obj name of Some (JString s) \<Rightarrow> Some s | _ \<Rightarrow> None)"

text \<open>
  Modelled from the spec: the validation of one entry of the creation list, which is
  part of the missing \<^verbatim>\<open>stream_openai_response\<close>; the entry must supply all the fields
  of \<^verbatim>\<open>FileToCreate\<close>.
\<close>

definition interpret_create :: "json \<Rightarrow> FileToCreate option" where
  "interpret_create j =
    (case j of
       JObject obj \<Rightarrow>
         (case (text_field obj ''path'', text_field obj ''content'') of
            (Some p, Some c) \<Rightarrow> Some (FileToCreate p c)
          | _ \<Rightarrow> None)
     | _ \<Rightarrow> None)"

text \<open>
  Modelled from the spec: the validation of one entry of the edit list, which is part of
  the missing \<^verbatim>\<open>stream_openai_response\<close>; the entry must supply all the fields of
  \<^verbatim>\<open>FileToEdit\<close>.
\<close>

definition interpret_edit :: "json \<Rightarrow> FileToEdit option" where
  "interpret_edit j =
    (case j of
       JObject obj \<Rightarrow>
         (case (text_field obj ''path'', text_field obj ''original_snippet'',
                text_field obj ''new_snippet'') of
            (Some p, Some old, Some new) \<Rightarrow> Some (FileToEdit p old new)
          | _ \<Rightarrow> None)
     | _ \<Rightarrow> None)"

text \<open>
  Modelled from the spec: an optional list field of the missing
  \<^verbatim>\<open>stream_openai_response\<close>. A missing field (or \<^verbatim>\<open>null\<close>, which the type
  \<^verbatim>\<open>Optional\<close> of the pydantic model admits) defaults to none; a list is accepted when
  every entry is; anything else is a mismatch, the outer \<open>None\<close>.
\<close>

definition list_field ::
  "(json \<Rightarrow> 'a option) \<Rightarrow> (string \<times> json) list \<Rightarrow> string \<Rightarrow> 'a list option option" where
  "list_field entry obj name =
    (case map_of obj name of
       None \<Rightarrow> Some None
     | Some JNull \<Rightarrow> Some None
     | Some (JArray xs) \<Rightarrow>
         (case those (map entry xs) of None \<Rightarrow> None | Some ys \<Rightarrow> Some (Some ys))
     | Some _ \<Rightarrow> None)"

text \<open>
  Modelled from the spec: the Response Interpreter of section 4.3, the part of the
  missing \<^verbatim>\<open>stream_openai_response\<close> that turns the raw payload into an
  \<^verbatim>\<open>AssistantResponse\<close>. The payload must be an object; unknown fields are ignored; the
  reply must be text; any mismatch fails the whole interpretation.
\<close>

definition interpret_response :: "json \<Rightarrow> schema_error + AssistantResponse" where
  "interpret_response raw =
    (case raw of
       JObject obj \<Rightarrow>
         (case text_field obj ''assistant_reply'' of
            None \<Rightarrow> Inl SchemaError
          | Some reply \<Rightarrow>
              (case list_field interpret_create obj ''files_to_create'' of
                 None \<Rightarrow> Inl SchemaError
               | Some creates \<Rightarrow>
                   (case list_field interpret_edit obj ''files_to_edit'' of
                      None \<Rightarrow> Inl SchemaError
                    | Some edits \<Rightarrow> Inr (AssistantResponse reply creates edits))))
     | _ \<Rightarrow> Inl SchemaError)"

section \<open>A turn of the main loop\<close>

text \<open>
  The path of an instruction is a string that \<^verbatim>\<open>main\<close> hands to \<^verbatim>\<open>create_file\<close> and
  \<^verbatim>\<open>apply_diff_edit\<close> as it is. The model covers the plain paths: a non-empty string of
  fewer than 4096 bytes, relative or absolute, whose components between the slashes are
  non-empty names of at most 255 bytes other than \<^verbatim>\<open>.\<close> and \<^verbatim>\<open>..\<close> and without a NUL byte.
  For a plain path the operating system and \<^verbatim>\<open>pathlib\<close> agree on the file it denotes,
  the working directory (or the root) followed by the components, and on its parent,
  the same without the last component. Any other string is outside the model.
\<close>

definition plain_component :: "string \<Rightarrow> bool" where
  "plain_component c =
    (c \<noteq> [] \<and> c \<noteq> ''.'' \<and> c \<noteq> ''..'' \<and> CHR 0x00 \<notin> set c \<and> length c \<le> 255)"

definition path_components :: "string \<Rightarrow> string list" where
  "path_components s = (if is_absolute s then tl (split_slash s) else split_slash s)"

definition plain_path :: "string \<Rightarrow> bool" where
  "plain_path s =
    (s \<noteq> [] \<and> length s < 4096 \<and> list_all plain_component (path_components s))"

definition instruction_path :: "path \<Rightarrow> string \<Rightarrow> path" where
  "instruction_path cwd s = (if is_absolute s then [] else cwd) @ path_components s"

fun create_path :: "FileToCreate \<Rightarrow> string" where
  "create_path (FileToCreate p c) = p"

fun edit_path :: "FileToEdit \<Rightarrow> string" where
  "edit_path (FileToEdit p old new) = p"

text \<open>
  A turn is inside the model when the working directory is a directory of the tree and
  every path of the response is plain.
\<close>

definition inside_model :: "path \<Rightarrow> FileToCreate list \<Rightarrow> FileToEdit list \<Rightarrow> disk \<Rightarrow> bool" where
  "inside_model cwd creates edits d =
    (isdir (tree d) cwd
     \<and> list_all (\<lambda>c. plain_path (create_path c)) creates
     \<and> list_all (\<lambda>e. plain_path (edit_path e)) edits)"

text \<open>
  The two loops of lines 248 to 257, for plain paths. An exception of \<^verbatim>\<open>create_file\<close>, or
  one that \<^verbatim>\<open>apply_diff_edit\<close> does not catch, leaves the loop; the instructions applied
  before it stay applied.
\<close>

fun apply_creates :: "path \<Rightarrow> FileToCreate list \<Rightarrow> disk \<Rightarrow> error option \<times> disk" where
  "apply_creates cwd [] d = (None, d)"
| "apply_creates cwd (FileToCreate p c # rest) d =
    (case create_file (instruction_path cwd p) c d of
       Inl e \<Rightarrow> (Some e, d)
     | Inr d' \<Rightarrow> apply_creates cwd rest d')"

fun apply_edits :: "path \<Rightarrow> FileToEdit list \<Rightarrow> disk \<Rightarrow> error option \<times> disk" where
  "apply_edits cwd [] d = (None, d)"
| "apply_edits cwd (FileToEdit p old new # rest) d =
    (case apply_diff_edit (instruction_path cwd p) old new d of
       Inl e \<Rightarrow> (Some e, d)
     | Inr (report, d') \<Rightarrow> apply_edits cwd rest d')"

text \<open>
  Lines 246 to 259 of \<^verbatim>\<open>main\<close> for a user input that is not a command: \<open>raw\<close> is the
  payload that the model returned and \<open>confirm\<close> whether the user answers \<^verbatim>\<open>y\<close> to the
  question about the edits. The creations and edits are those of the interpreted
  response; creations are applied at once, edits after confirmation, and an empty or
  absent list is passed over. A response outside the model gives \<open>OutsideModel\<close>, which
  says nothing about what the program does with it. Modelled from the spec: when the
  interpretation fails the turn is reported as failed and no file operation is
  attempted (section 7); how the missing \<^verbatim>\<open>stream_openai_response\<close> hands a failure to
  \<^verbatim>\<open>main\<close> is not in the source.
\<close>

datatype turn_outcome = InterpretationFailed | OutsideModel | Uncaught error | TurnDone

definition listed :: "'a list option \<Rightarrow> 'a list" where
  "listed xs = (case xs of None \<Rightarrow> [] | Some ys \<Rightarrow> ys)"

definition turn :: "path \<Rightarrow> json \<Rightarrow> bool \<Rightarrow> disk \<Rightarrow> turn_outcome \<times> disk" where
  "turn cwd raw confirm d =
    (case interpret_response raw of
       Inl e \<Rightarrow> (InterpretationFailed, d)
     | Inr (AssistantResponse reply files_to_create files_to_edit) \<Rightarrow>
         if \<not> inside_model cwd (listed files_to_create) (listed files_to_edit) d
         then (OutsideModel, d)
         else
           (case apply_creates cwd (listed files_to_create) d of
              (Some e, d1) \<Rightarrow> (Uncaught e, d1)
            | (None, d1) \<Rightarrow>
                (case files_to_edit of
                   None \<Rightarrow> (TurnDone, d1)
                 | Some [] \<Rightarrow> (TurnDone, d1)
                 | Some (e # es) \<Rightarrow>
                     if confirm then
                       (case apply_edits cwd (e # es) d1 of
                          (Some err, d2) \<Rightarrow> (Uncaught err, d2)
                        | (None, d2) \<Rightarrow> (TurnDone, d2))
                     else (TurnDone, d1))))"

text \<open>A payload without the reply that asks for a file to be created.\<close>

definition no_reply_payload :: "(string \<times> json) list" where
  "no_reply_payload =
    [(''files_to_create'',
      JArray [JObject [(''path'', JString ''/home/new.py''), (''content'', JString ''x'')]])]"

section \<open>Properties of the mutation engine\<close>

subsection \<open>Writing over an existing file\<close>

lemma lookup_write_at:
  "lookup p (Dir l) = Inr (File bs) \<Longrightarrow>
   \<exists>l'. write_at p content l = Inr l' \<and> lookup p (Dir l') = Inr (File content)"
proof (induction p content l arbitrary: bs rule: write_at.induct)
  case (1 content l)
  then show ?case by simp
next
  case (2 c content l)
  then have m: "map_of l c = Some (File bs)"
    by (auto split: option.splits)
  have "lookup [c] (Dir (AList.update c (File content) l)) = Inr (File content)"
    by (simp add: update_conv')
  with m show ?case by simp
next
  case (3 c d cs content l)
  from "3.prems" obtain n where mn: "map_of l c = Some n"
    and ln: "lookup (d # cs) n = Inr (File bs)"
    by (auto split: option.splits)
  from ln obtain l0 where n: "n = Dir l0" by (cases n) auto
  from mn n have m: "map_of l c = Some (Dir l0)" by simp
  from ln n have lk: "lookup (d # cs) (Dir l0) = Inr (File bs)" by simp
  from "3.IH"(2) [OF mn n lk] obtain l' where
    w: "write_at (d # cs) content l0 = Inr l'" and
    r: "lookup (d # cs) (Dir l') = Inr (File content)" by blast
  show ?case using m w r by (simp add: update_conv')
qed

lemma replace1_empty: "replace1 content [] new = new @ content"
  by (cases content) simp_all

lemma replace1_prefix:
  "prefix old content \<Longrightarrow> replace1 content old new = new @ drop (length old) content"
  by (cases content) simp_all

lemma replace1_absent: "\<not> sublist old content \<Longrightarrow> replace1 content old new = content"
proof (induction content)
  case Nil
  then show ?case by auto
next
  case (Cons c cs)
  have "\<not> prefix old (c # cs)" using Cons.prems by (auto)
  moreover have "\<not> sublist old cs" using Cons.prems by (auto simp: sublist_Cons_right)
  ultimately show ?case using Cons.IH by simp
qed

lemma replace1_leftmost:
  "\<forall>i<length pre. \<not> prefix old (drop i (pre @ old @ post)) \<Longrightarrow>
   replace1 (pre @ old @ post) old new = pre @ new @ post"
proof (induction pre)
  case Nil
  have "replace1 (old @ post) old new = new @ drop (length old) (old @ post)"
    by (rule replace1_prefix) simp
  then show ?case by simp
next
  case (Cons c pre)
  have np: "\<not> prefix old (c # pre @ old @ post)"
    using Cons.prems by (auto dest: spec [of _ 0])
  have "\<forall>i<length pre. \<not> prefix old (drop i (pre @ old @ post))"
  proof (intro allI impI)
    fix i assume "i < length pre"
    then have "Suc i < length (c # pre)" by simp
    with Cons.prems have "\<not> prefix old (drop (Suc i) ((c # pre) @ old @ post))" by blast
    then show "\<not> prefix old (drop i (pre @ old @ post))" by simp
  qed
  with Cons.IH np show ?case by simp
qed

lemma sublist_leftmost:
  "sublist old content \<Longrightarrow>
   \<exists>pre post. content = pre @ old @ post \<and> (\<forall>i<length pre. \<not> prefix old (drop i content))"
proof (induction content)
  case Nil
  then show ?case by auto
next
  case (Cons c cs)
  show ?case
  proof (cases "prefix old (c # cs)")
    case True
    then obtain post where "c # cs = old @ post" by (auto simp: prefix_def)
    then have "c # cs = [] @ old @ post \<and> (\<forall>i<length ([]::'a list). \<not> prefix old (drop i (c # cs)))" by simp
    then show ?thesis by blast
  next
    case False
    with Cons.prems have "sublist old cs" by (auto simp: sublist_Cons_right)
    from Cons.IH [OF this] obtain pre post where
      e: "cs = pre @ old @ post" and n: "\<forall>i<length pre. \<not> prefix old (drop i cs)" by blast
    have "\<forall>i<length (c # pre). \<not> prefix old (drop i (c # cs))"
    proof (intro allI impI)
      fix i assume i: "i < length (c # pre)"
      show "\<not> prefix old (drop i (c # cs))"
      proof (cases i)
        case 0 then show ?thesis using False by simp
      next
        case (Suc j) then show ?thesis using n i by simp
      qed
    qed
    moreover have "c # cs = (c # pre) @ old @ post" using e by simp
    ultimately show ?thesis by blast
  qed
qed


lemma universal_newlines_no_cr:
  "CHR 0x0D \<notin> set bs \<Longrightarrow> universal_newlines bs = bs"
  by (induction bs rule: universal_newlines.induct) auto

lemma leftmost_at_start:
  assumes "prefix old text" and "\<forall>i<length pre. \<not> prefix old (drop i text)"
  shows "pre = []"
proof (rule ccontr)
  assume "pre \<noteq> []"
  then have "0 < length pre" by simp
  with assms(2) have "\<not> prefix old (drop 0 text)" by blast
  with assms(1) show False by simp
qed

lemma apply_diff_edit_readable:
  assumes "lookup path (tree d) = Inr (File bs)" and "utf8_valid bs"
  shows "\<exists>l'. apply_diff_edit path old new d =
            Inr (AppliedDiffEdit,
                 d\<lparr>root_dir := l',
                   writes := writes d @ [(path, replace1 (universal_newlines bs) old new)]\<rparr>)
          \<and> lookup path (Dir l') = Inr (File (replace1 (universal_newlines bs) old new))"
proof -
  let ?new = "replace1 (universal_newlines bs) old new"
  from assms(1) have "lookup path (Dir (root_dir d)) = Inr (File bs)"
    by (simp add: tree_def)
  from lookup_write_at [OF this, of ?new] obtain l' where
    w: "write_at path ?new (root_dir d) = Inr l'" and
    r: "lookup path (Dir l') = Inr (File ?new)" by blast
  have "read_local_file (tree d) path = Inr (universal_newlines bs)"
    using assms by (simp add: read_local_file_def read_node_def)
  with w have "apply_diff_edit path old new d =
      Inr (AppliedDiffEdit, d\<lparr>root_dir := l', writes := writes d @ [(path, ?new)]\<rparr>)"
    by (simp add: apply_diff_edit_def create_file_def)
  with r show ?thesis by blast
qed

subsection \<open>Replacing the first occurrence\<close>

text \<open>
  Claim C4, as stated, fails on a file with a CR LF line end. The file \<^verbatim>\<open>/home/dos.txt\<close>
  holds the four bytes A, CR, LF, B and so contains the snippet \<open>''A''\<close>; the edit to
  \<open>''X''\<close> succeeds, but the file then holds X, LF, B and not X, CR, LF, B: the line end
  after the first occurrence has changed, because the file is read in text mode.
\<close>

theorem apply_diff_edit_crlf_counterexample:
  "lookup [''home'', ''dos.txt''] (tree crlf_disk) = Inr (File [CHR ''A'', CHR 0x0D, CHR 0x0A, CHR ''B''])
   \<and> sublist ''A'' [CHR ''A'', CHR 0x0D, CHR 0x0A, CHR ''B'']
   \<and> apply_diff_edit [''home'', ''dos.txt''] ''A'' ''X'' crlf_disk =
       Inr (AppliedDiffEdit,
            \<lparr>root_dir = [(''home'', Dir [(''dos.txt'', File [CHR ''X'', CHR 0x0A, CHR ''B''])])],
             writes = [([''home'', ''dos.txt''], [CHR ''X'', CHR 0x0A, CHR ''B''])]\<rparr>)
   \<and> [CHR ''X'', CHR 0x0A, CHR ''B''] \<noteq> [CHR ''X'', CHR 0x0D, CHR 0x0A, CHR ''B'']"
  by (simp add: crlf_disk_def tree_def sublist_Cons_right apply_diff_edit_def
      read_local_file_def read_node_def create_file_def byte_in_def)

text \<open>
  Claim C4, amended. The edit works on the text of the file as text mode reads it, with
  each CR LF and each lone CR turned into LF. When the file exists, decodes as UTF-8 and
  that text contains \<open>original_snippet\<close>, the edit succeeds and exactly the leftmost
  occurrence is replaced: the text splits as \<open>pre @ original_snippet @ post\<close> with no
  occurrence starting inside \<open>pre\<close>, and the file then holds
  \<open>pre @ new_snippet @ post\<close>, so every later occurrence stands as it was. For a file
  without CR the text is the file's bytes, and the replacement is byte for byte. On
  \<open>''A-B-A''\<close> with snippet \<open>''A''\<close> and replacement \<open>''X''\<close> the result is \<open>''X-B-A''\<close>.
\<close>

theorem apply_diff_edit_first_occurrence:
  assumes "lookup path (tree d) = Inr (File bs)"
    and "utf8_valid bs"
    and "sublist original_snippet (universal_newlines bs)"
  shows "\<exists>pre post d'.
           universal_newlines bs = pre @ original_snippet @ post
         \<and> (\<forall>i<length pre. \<not> prefix original_snippet (drop i (universal_newlines bs)))
         \<and> apply_diff_edit path original_snippet new_snippet d = Inr (AppliedDiffEdit, d')
         \<and> lookup path (tree d') = Inr (File (pre @ new_snippet @ post))
         \<and> (CHR 0x0D \<notin> set bs \<longrightarrow> bs = pre @ original_snippet @ post)"
proof -
  let ?text = "universal_newlines bs"
  from sublist_leftmost [OF assms(3)] obtain pre post where
    e: "?text = pre @ original_snippet @ post" and
    n: "\<forall>i<length pre. \<not> prefix original_snippet (drop i ?text)" by blast
  from n e have r: "replace1 ?text original_snippet new_snippet = pre @ new_snippet @ post"
    using replace1_leftmost [of pre original_snippet post new_snippet] by simp
  from apply_diff_edit_readable [OF assms(1,2), of original_snippet new_snippet]
  obtain d' where
    a: "apply_diff_edit path original_snippet new_snippet d = Inr (AppliedDiffEdit, d')" and
    "lookup path (tree d') = Inr (File (replace1 ?text original_snippet new_snippet))"
    by (auto simp: tree_def)
  with r have l: "lookup path (tree d') = Inr (File (pre @ new_snippet @ post))" by simp
  have c: "CHR 0x0D \<notin> set bs \<longrightarrow> bs = pre @ original_snippet @ post"
    using e by (auto simp: universal_newlines_no_cr)
  from e n a l c show ?thesis by blast
qed

theorem apply_diff_edit_first_occurrence_witness:
  "lookup [''home'', ''notes.txt''] (tree edit_disk) = Inr (File ''A-B-A'')
   \<and> utf8_valid ''A-B-A'' \<and> sublist ''A'' (universal_newlines ''A-B-A'')
   \<and> CHR 0x0D \<notin> set ''A-B-A''
   \<and> (\<exists>d'. apply_diff_edit [''home'', ''notes.txt''] ''A'' ''X'' edit_disk = Inr (AppliedDiffEdit, d')
         \<and> lookup [''home'', ''notes.txt''] (tree d') = Inr (File ''X-B-A''))
   \<and> lookup [''home'', ''dos.txt''] (tree crlf_disk) = Inr (File [CHR ''A'', CHR 0x0D, CHR 0x0A, CHR ''B''])
   \<and> utf8_valid [CHR ''A'', CHR 0x0D, CHR 0x0A, CHR ''B'']
   \<and> sublist [CHR 0x0A, CHR ''B''] (universal_newlines [CHR ''A'', CHR 0x0D, CHR 0x0A, CHR ''B''])
   \<and> (\<exists>d'. apply_diff_edit [''home'', ''dos.txt''] [CHR 0x0A, CHR ''B''] ''-C'' crlf_disk =
               Inr (AppliedDiffEdit, d')
         \<and> lookup [''home'', ''dos.txt''] (tree d') = Inr (File ''A-C''))"
proof -
  have h1: "lookup [''home'', ''notes.txt''] (tree edit_disk) = Inr (File ''A-B-A'')"
    by (simp add: edit_disk_def tree_def)
  have h2: "utf8_valid ''A-B-A''" by (simp add: byte_in_def)
  have t: "universal_newlines ''A-B-A'' = ''A-B-A''" by simp
  have h3: "sublist ''A'' (universal_newlines ''A-B-A'')"
    unfolding t by (simp add: sublist_Cons_right)
  have h4: "CHR 0x0D \<notin> set ''A-B-A''" by simp
  from apply_diff_edit_first_occurrence [OF h1 h2 h3, of "''X''"] obtain pre post d' where
    e: "universal_newlines ''A-B-A'' = pre @ ''A'' @ post" and
    n: "\<forall>i<length pre. \<not> prefix ''A'' (drop i (universal_newlines ''A-B-A''))" and
    a: "apply_diff_edit [''home'', ''notes.txt''] ''A'' ''X'' edit_disk = Inr (AppliedDiffEdit, d')" and
    l: "lookup [''home'', ''notes.txt''] (tree d') = Inr (File (pre @ ''X'' @ post))"
    by blast
  have "prefix ''A'' (universal_newlines ''A-B-A'')" unfolding t by simp
  from leftmost_at_start [OF this n] have p: "pre = []" .
  with e t have "post = ''-B-A''" by simp
  with p l have "lookup [''home'', ''notes.txt''] (tree d') = Inr (File ''X-B-A'')" by simp
  with a have r1: "\<exists>d'. apply_diff_edit [''home'', ''notes.txt''] ''A'' ''X'' edit_disk =
        Inr (AppliedDiffEdit, d')
      \<and> lookup [''home'', ''notes.txt''] (tree d') = Inr (File ''X-B-A'')" by blast
  have k1: "lookup [''home'', ''dos.txt''] (tree crlf_disk) =
      Inr (File [CHR ''A'', CHR 0x0D, CHR 0x0A, CHR ''B''])"
    by (simp add: crlf_disk_def tree_def)
  have k2: "utf8_valid [CHR ''A'', CHR 0x0D, CHR 0x0A, CHR ''B'']" by (simp add: byte_in_def)
  have u: "universal_newlines [CHR ''A'', CHR 0x0D, CHR 0x0A, CHR ''B''] = [CHR ''A'', CHR 0x0A, CHR ''B'']"
    by simp
  have k3: "sublist [CHR 0x0A, CHR ''B''] (universal_newlines [CHR ''A'', CHR 0x0D, CHR 0x0A, CHR ''B''])"
    unfolding u by (simp add: sublist_Cons_right)
  from apply_diff_edit_first_occurrence [OF k1 k2 k3, of "''-C''"] obtain pre2 post2 d2 where
    e2: "universal_newlines [CHR ''A'', CHR 0x0D, CHR 0x0A, CHR ''B''] =
          pre2 @ [CHR 0x0A, CHR ''B''] @ post2" and
    a2: "apply_diff_edit [''home'', ''dos.txt''] [CHR 0x0A, CHR ''B''] ''-C'' crlf_disk =
          Inr (AppliedDiffEdit, d2)" and
    l2: "lookup [''home'', ''dos.txt''] (tree d2) = Inr (File (pre2 @ ''-C'' @ post2))"
    by blast
  from e2 have "length pre2 + length post2 = 1" unfolding u
    by (metis add_Suc_right length_Cons length_append list.size(3) nat.inject One_nat_def
        add.commute add.right_neutral plus_1_eq_Suc)
  with e2 have "pre2 = ''A'' \<and> post2 = []" unfolding u
    by (cases pre2; cases post2) auto
  with l2 have "lookup [''home'', ''dos.txt''] (tree d2) = Inr (File ''A-C'')" by simp
  with a2 have r2: "\<exists>d'. apply_diff_edit [''home'', ''dos.txt''] [CHR 0x0A, CHR ''B''] ''-C'' crlf_disk =
        Inr (AppliedDiffEdit, d')
      \<and> lookup [''home'', ''dos.txt''] (tree d') = Inr (File ''A-C'')" by blast
  from h1 h2 h3 h4 r1 k1 k2 k3 r2 show ?thesis by blast
qed

subsection \<open>The empty snippet\<close>

text \<open>
  Claim C9, as stated, fails on a file with a CR LF line end: with an empty snippet and
  the new snippet \<open>''# ''\<close> the file \<^verbatim>\<open>/home/dos.txt\<close>, which held A, CR, LF, B, then
  holds \<open>''# ''\<close> followed by A, LF, B, which is not its previous content.
\<close>

theorem apply_diff_edit_empty_snippet_crlf_counterexample:
  "lookup [''home'', ''dos.txt''] (tree crlf_disk) = Inr (File [CHR ''A'', CHR 0x0D, CHR 0x0A, CHR ''B''])
   \<and> apply_diff_edit [''home'', ''dos.txt''] [] ''# '' crlf_disk =
       Inr (AppliedDiffEdit,
            \<lparr>root_dir =
               [(''home'', Dir [(''dos.txt'', File (''# '' @ [CHR ''A'', CHR 0x0A, CHR ''B'']))])],
             writes = [([''home'', ''dos.txt''], ''# '' @ [CHR ''A'', CHR 0x0A, CHR ''B''])]\<rparr>)
   \<and> ''# '' @ [CHR ''A'', CHR 0x0A, CHR ''B''] \<noteq> ''# '' @ [CHR ''A'', CHR 0x0D, CHR 0x0A, CHR ''B'']"
  by (simp add: crlf_disk_def tree_def apply_diff_edit_def read_local_file_def read_node_def
      create_file_def byte_in_def)

text \<open>
  Claim C9, amended. For an existing file that decodes as UTF-8 and an empty
  \<open>original_snippet\<close> the edit is not rejected: it succeeds and the file then holds
  \<open>new_snippet\<close> followed by its previous content as text mode reads it, with each CR LF
  and each lone CR turned into LF; for a file without CR that is \<open>new_snippet\<close> followed
  by the previous content unchanged.
\<close>

theorem apply_diff_edit_empty_snippet:
  assumes "lookup path (tree d) = Inr (File bs)"
    and "utf8_valid bs"
  shows "\<exists>d'. apply_diff_edit path [] new_snippet d = Inr (AppliedDiffEdit, d')
             \<and> lookup path (tree d') = Inr (File (new_snippet @ universal_newlines bs))
             \<and> (CHR 0x0D \<notin> set bs \<longrightarrow>
                  lookup path (tree d') = Inr (File (new_snippet @ bs)))"
  using apply_diff_edit_readable [OF assms, of "[]" new_snippet]
  by (auto simp: tree_def replace1_empty universal_newlines_no_cr)

theorem apply_diff_edit_empty_snippet_witness:
  "lookup [''home'', ''notes.txt''] (tree edit_disk) = Inr (File ''A-B-A'')
   \<and> utf8_valid ''A-B-A'' \<and> CHR 0x0D \<notin> set ''A-B-A''
   \<and> (\<exists>d'. apply_diff_edit [''home'', ''notes.txt''] [] ''# title'' edit_disk = Inr (AppliedDiffEdit, d')
         \<and> lookup [''home'', ''notes.txt''] (tree d') = Inr (File ''# titleA-B-A''))
   \<and> lookup [''home'', ''dos.txt''] (tree crlf_disk) = Inr (File [CHR ''A'', CHR 0x0D, CHR 0x0A, CHR ''B''])
   \<and> utf8_valid [CHR ''A'', CHR 0x0D, CHR 0x0A, CHR ''B'']
   \<and> (\<exists>d'. apply_diff_edit [''home'', ''dos.txt''] [] ''# '' crlf_disk = Inr (AppliedDiffEdit, d')
         \<and> lookup [''home'', ''dos.txt''] (tree d') =
             Inr (File (''# '' @ [CHR ''A'', CHR 0x0A, CHR ''B''])))"
proof -
  have h1: "lookup [''home'', ''notes.txt''] (tree edit_disk) = Inr (File ''A-B-A'')"
    by (simp add: edit_disk_def tree_def)
  have h2: "utf8_valid ''A-B-A''" by (simp add: byte_in_def)
  have h3: "CHR 0x0D \<notin> set ''A-B-A''" by simp
  from apply_diff_edit_empty_snippet [OF h1 h2, of "''# title''"] h3
  have r1: "\<exists>d'. apply_diff_edit [''home'', ''notes.txt''] [] ''# title'' edit_disk =
        Inr (AppliedDiffEdit, d')
      \<and> lookup [''home'', ''notes.txt''] (tree d') = Inr (File ''# titleA-B-A'')" by auto
  have k1: "lookup [''home'', ''dos.txt''] (tree crlf_disk) =
      Inr (File [CHR ''A'', CHR 0x0D, CHR 0x0A, CHR ''B''])"
    by (simp add: crlf_disk_def tree_def)
  have k2: "utf8_valid [CHR ''A'', CHR 0x0D, CHR 0x0A, CHR ''B'']" by (simp add: byte_in_def)
  from apply_diff_edit_empty_snippet [OF k1 k2, of "''# ''"]
  have r2: "\<exists>d'. apply_diff_edit [''home'', ''dos.txt''] [] ''# '' crlf_disk = Inr (AppliedDiffEdit, d')
      \<and> lookup [''home'', ''dos.txt''] (tree d') =
          Inr (File (''# '' @ [CHR ''A'', CHR 0x0A, CHR ''B'']))" by auto
  from h1 h2 h3 r1 k1 k2 r2 show ?thesis by blast
qed

subsection \<open>A snippet that does not occur\<close>

lemma apply_diff_edit_absent_snippet:
  assumes "lookup path (tree d) = Inr (File bs)"
    and "utf8_valid bs"
    and "\<not> sublist original_snippet (universal_newlines bs)"
  shows "\<exists>l'. apply_diff_edit path original_snippet new_snippet d =
            Inr (AppliedDiffEdit,
                 d\<lparr>root_dir := l', writes := writes d @ [(path, universal_newlines bs)]\<rparr>)
          \<and> lookup path (Dir l') = Inr (File (universal_newlines bs))"
  using apply_diff_edit_readable [OF assms(1,2), of original_snippet new_snippet]
    replace1_absent [OF assms(3), of new_snippet]
  by simp

text \<open>
  Claim C1. The claim is that an edit whose snippet does not occur fails and performs no
  write. The code behaves otherwise: \<^verbatim>\<open>str.replace\<close> returns the content as it is and
  raises nothing, so \<^verbatim>\<open>create_file\<close> is called all the same and the edit is reported as
  applied; the \<^verbatim>\<open>except ValueError\<close> clause with its message "No changes made" is never
  reached for a missing snippet. The text of the file is the same afterwards, but it was
  written (\<open>apply_diff_edit_absent_snippet\<close>). On a file holding \<open>''A-B-A''\<close> and the
  snippet \<open>''Z''\<close> the function reports \<open>AppliedDiffEdit\<close> and the write log holds one
  write of the old content.
\<close>

theorem apply_diff_edit_snippet_absent_writes:
  "\<not> sublist ''Z'' ''A-B-A''
   \<and> apply_diff_edit [''home'', ''notes.txt''] ''Z'' ''X'' edit_disk =
       Inr (AppliedDiffEdit,
            \<lparr>root_dir = [(''home'', Dir [(''notes.txt'', File ''A-B-A'')])],
               writes = [([''home'', ''notes.txt''], ''A-B-A'')]\<rparr>)"
  by (simp add: sublist_Cons_right apply_diff_edit_def read_local_file_def read_node_def
      create_file_def edit_disk_def tree_def byte_in_def)


section \<open>Properties of path normalisation and of the \<^verbatim>\<open>/add\<close> command\<close>

text \<open>
  A resolved path has no \<^verbatim>\<open>..\<close> component, so the test of \<^verbatim>\<open>normalize_path\<close> never
  fires and the function returns for every input.
\<close>

lemma collapse_no_parent:
  "''..'' \<notin> set acc \<Longrightarrow> ''..'' \<notin> set (collapse acc cs)"
proof (induction cs arbitrary: acc)
  case Nil
  then show ?case by simp
next
  case (Cons c cs)
  have "''..'' \<notin> set (butlast acc)"
    using Cons.prems by (auto dest: in_set_butlastD)
  with Cons show ?case by simp
qed

lemma resolve_no_parent: "''..'' \<notin> set (resolve cwd s)"
  unfolding resolve_def by (rule collapse_no_parent) simp

lemma normalize_path_total: "normalize_path cwd s = Inr (resolve cwd s)"
  by (simp add: normalize_path_def resolve_no_parent)

text \<open>
  Claim C2. The claim is that path normalisation rejects every traversal attempt, such
  as a path with \<^verbatim>\<open>..\<close> components. The code tests the path after \<^verbatim>\<open>resolve()\<close> has
  removed those components, although its error message speaks of the parent directory
  references of the string that the user gave. In the working directory \<^verbatim>\<open>/home/user\<close>
  the input \<^verbatim>\<open>../.env\<close> is accepted and the file \<^verbatim>\<open>/home/.env\<close> is appended to the
  conversation.
\<close>

theorem normalize_path_accepts_traversal:
  "normalize_path [''home'', ''user''] ''../.env'' = Inr [''home'', ''.env'']
   \<and> add_path [''home'', ''user''] secret_tree ''../.env'' [] =
       (SingleFile AddedFile, [file_entry [''home'', ''.env''] [CHR ''K'', CHR ''='', CHR 0x00, CHR ''1'']])"
  by (simp add: normalize_path_def resolve_def is_absolute_def path_parts_def add_path_def
      isdir_def secret_tree_def add_file_to_conversation_def add_file_core_def read_node_def
      byte_in_def)


text \<open>
  Claim C10, as stated, fails on a file with a CR LF line end: for \<^verbatim>\<open>/home/dos.txt\<close>,
  which holds A, CR, LF, B, the entry appended ends with A, LF, B, so the content is not
  appended verbatim.
\<close>

theorem add_path_crlf_counterexample:
  "lookup [''home'', ''dos.txt''] crlf_tree = Inr (File [CHR ''A'', CHR 0x0D, CHR 0x0A, CHR ''B''])
   \<and> add_path [] crlf_tree ''/home/dos.txt'' [] =
       (SingleFile AddedFile,
        [(System, ''Content of file '' @ [CHR 0x27] @ ''/home/dos.txt'' @ [CHR 0x27] @ '':''
                  @ [CHR 0x0A, CHR 0x0A] @ [CHR ''A'', CHR 0x0A, CHR ''B''])])
   \<and> [CHR ''A'', CHR 0x0A, CHR ''B''] \<noteq> [CHR ''A'', CHR 0x0D, CHR 0x0A, CHR ''B'']"
  by (simp add: crlf_tree_def add_path_def normalize_path_def resolve_def is_absolute_def
      path_parts_def isdir_def add_file_to_conversation_def add_file_core_def read_node_def
      file_entry_def path_str_def byte_in_def)

text \<open>
  Claim C10, amended. When the resolved path denotes a regular file that decodes as
  UTF-8, the \<^verbatim>\<open>/add\<close> command appends exactly one entry to the conversation, whatever the
  name, the extension, the size and the bytes of the file are: none of the tests of the
  directory walk is applied. The entry has the role system, and its content is the line
  \<^verbatim>\<open>Content of file '<path>':\<close>, an empty line, and the content of the file as text mode
  reads it, with each CR LF and each lone CR turned into LF; for a file without CR that
  is the content verbatim. The witness is a hidden, denylisted file with a NUL byte.
\<close>

theorem add_path_single_file:
  assumes "normalize_path cwd path_to_add = Inr p"
    and "lookup p t = Inr (File bs)"
    and "utf8_valid bs"
  shows "add_path cwd t path_to_add history =
          (SingleFile AddedFile,
           history @ [(System, ''Content of file '' @ [CHR 0x27] @ path_str p @ [CHR 0x27] @ '':''
                               @ [CHR 0x0A, CHR 0x0A] @ universal_newlines bs)])
       \<and> (CHR 0x0D \<notin> set bs \<longrightarrow>
            add_path cwd t path_to_add history =
              (SingleFile AddedFile,
               history @ [(System, ''Content of file '' @ [CHR 0x27] @ path_str p @ [CHR 0x27]
                                   @ '':'' @ [CHR 0x0A, CHR 0x0A] @ bs)]))"
  using assms
  by (simp add: add_path_def isdir_def add_file_to_conversation_def add_file_core_def
      read_node_def file_entry_def universal_newlines_no_cr)

theorem add_path_single_file_witness:
  "normalize_path [] ''/home/.env'' = Inr [''home'', ''.env'']
   \<and> lookup [''home'', ''.env''] secret_tree = Inr (File [CHR ''K'', CHR ''='', CHR 0x00, CHR ''1''])
   \<and> utf8_valid [CHR ''K'', CHR ''='', CHR 0x00, CHR ''1'']
   \<and> CHR 0x0D \<notin> set [CHR ''K'', CHR ''='', CHR 0x00, CHR ''1'']
   \<and> excluded_name ''.env'' \<and> is_binary_file [CHR ''K'', CHR ''='', CHR 0x00, CHR ''1'']
   \<and> add_path [] secret_tree ''/home/.env'' [] =
       (SingleFile AddedFile,
        [(System, ''Content of file '' @ [CHR 0x27] @ ''/home/.env'' @ [CHR 0x27] @ '':''
                  @ [CHR 0x0A, CHR 0x0A] @ [CHR ''K'', CHR ''='', CHR 0x00, CHR ''1''])])
   \<and> normalize_path [''home''] ''dos.txt'' = Inr [''home'', ''dos.txt'']
   \<and> lookup [''home'', ''dos.txt''] crlf_tree = Inr (File [CHR ''A'', CHR 0x0D, CHR 0x0A, CHR ''B''])
   \<and> utf8_valid [CHR ''A'', CHR 0x0D, CHR 0x0A, CHR ''B'']
   \<and> add_path [''home''] crlf_tree ''dos.txt'' [(User, ''hello'')] =
       (SingleFile AddedFile,
        [(User, ''hello''),
         (System, ''Content of file '' @ [CHR 0x27] @ ''/home/dos.txt'' @ [CHR 0x27] @ '':''
                  @ [CHR 0x0A, CHR 0x0A] @ [CHR ''A'', CHR 0x0A, CHR ''B''])])"
proof -
  have h1: "normalize_path [] ''/home/.env'' = Inr [''home'', ''.env'']"
    by (simp add: normalize_path_def resolve_def is_absolute_def path_parts_def)
  have h2: "lookup [''home'', ''.env''] secret_tree = Inr (File [CHR ''K'', CHR ''='', CHR 0x00, CHR ''1''])"
    by (simp add: secret_tree_def)
  have h3: "utf8_valid [CHR ''K'', CHR ''='', CHR 0x00, CHR ''1'']"
    by (simp add: byte_in_def)
  have h4: "excluded_name ''.env'' \<and> is_binary_file [CHR ''K'', CHR ''='', CHR 0x00, CHR ''1'']"
    by (simp add: excluded_name_def startswith_dot_def is_binary_file_def)
  have h5: "CHR 0x0D \<notin> set [CHR ''K'', CHR ''='', CHR 0x00, CHR ''1'']" by simp
  have p: "path_str [''home'', ''.env''] = ''/home/.env''" by (simp add: path_str_def)
  from add_path_single_file [OF h1 h2 h3, of "[]"] h5 p
  have r1: "add_path [] secret_tree ''/home/.env'' [] =
       (SingleFile AddedFile,
        [(System, ''Content of file '' @ [CHR 0x27] @ ''/home/.env'' @ [CHR 0x27] @ '':''
                  @ [CHR 0x0A, CHR 0x0A] @ [CHR ''K'', CHR ''='', CHR 0x00, CHR ''1''])])"
    by simp
  have k1: "normalize_path [''home''] ''dos.txt'' = Inr [''home'', ''dos.txt'']"
    by (simp add: normalize_path_def resolve_def is_absolute_def path_parts_def)
  have k2: "lookup [''home'', ''dos.txt''] crlf_tree =
      Inr (File [CHR ''A'', CHR 0x0D, CHR 0x0A, CHR ''B''])"
    by (simp add: crlf_tree_def)
  have k3: "utf8_valid [CHR ''A'', CHR 0x0D, CHR 0x0A, CHR ''B'']" by (simp add: byte_in_def)
  have q: "path_str [''home'', ''dos.txt''] = ''/home/dos.txt''" by (simp add: path_str_def)
  from add_path_single_file [OF k1 k2 k3, of "[(User, ''hello'')]"] q
  have r2: "add_path [''home''] crlf_tree ''dos.txt'' [(User, ''hello'')] =
       (SingleFile AddedFile,
        [(User, ''hello''),
         (System, ''Content of file '' @ [CHR 0x27] @ ''/home/dos.txt'' @ [CHR 0x27] @ '':''
                  @ [CHR 0x0A, CHR 0x0A] @ [CHR ''A'', CHR 0x0A, CHR ''B''])])"
    by simp
  from h1 h2 h3 h4 h5 r1 k1 k2 k3 r2 show ?thesis by blast
qed

section \<open>Properties of the directory walk\<close>

lemmas walk_defs =
  add_directory_to_conversation_def init_walk_def process_file_def try_body_def log_io_def
  skip_def add_file_core_def read_node_def is_binary_file_def excluded_extension_def
  splitext_ext_def lower_char_def byte_in_def startswith_dot_def excluded_name_def
  eligible_def EXCLUDED_FILES_def EXCLUDED_EXTENSIONS_def MAX_FILE_SIZE_def
  MAX_FILES_TO_PROCESS_def Let_def

subsection \<open>Read errors during the walk\<close>

text \<open>
  Claim C3. The claim is that a read error demotes the file to the skipped list and the
  walk goes on. The walk has an \<^verbatim>\<open>except OSError\<close> clause that does so, but a file that is
  not UTF-8 raises \<^verbatim>\<open>UnicodeDecodeError\<close>, a \<^verbatim>\<open>ValueError\<close>: neither
  \<^verbatim>\<open>add_file_to_conversation\<close> nor the walk catches it. On a directory with the Latin-1
  file \<^verbatim>\<open>a.txt\<close>, which passes every test of the filter, followed by \<^verbatim>\<open>b.txt\<close>, the walk
  ends with the exception after opening \<^verbatim>\<open>a.txt\<close>: nothing is skipped, \<^verbatim>\<open>b.txt\<close> is never
  looked at, and \<^verbatim>\<open>main\<close> reports that the path could not be added.
\<close>

theorem walk_aborts_on_undecodable_file:
  "eligible ''a.txt'' [CHR ''c'', CHR ''a'', CHR ''f'', CHR 0xE9]
   \<and> add_directory_to_conversation latin1_tree [''proj''] [] =
       (Some UnicodeDecodeError,
        \<lparr>conversation_history = [], skipped_files = [], added_files = [],
         total_files_processed = 0, limit_warned = False,
         io_log = [(Getsize, [''proj'', ''a.txt'']), (OpenBinary, [''proj'', ''a.txt'']),
                   (OpenText, [''proj'', ''a.txt''])]\<rparr>)
   \<and> add_path [] latin1_tree ''/proj'' [] = (CouldNotAddPath UnicodeDecodeError, [])"
  by (simp add: walk_defs latin1_tree_def add_path_def normalize_path_def resolve_def
      is_absolute_def path_parts_def isdir_def)

subsection \<open>The outcomes of the guarded block\<close>


lemma try_body_accept:
  assumes "length bs \<le> MAX_FILE_SIZE" and "\<not> is_binary_file bs" and "utf8_valid bs"
  shows "try_body p bs st = (None, accepted p bs st)"
  using assms
  by (simp add: try_body_def accepted_def log_io_def add_file_core_def read_node_def Let_def)

lemma try_body_oversize:
  assumes "MAX_FILE_SIZE < length bs"
  shows "try_body p bs st = (None, skip (ExceedsSizeLimit p) (log_io Getsize p st))"
  using assms by (simp add: try_body_def Let_def)

lemma try_body_binary:
  assumes "length bs \<le> MAX_FILE_SIZE" and "is_binary_file bs"
  shows "try_body p bs st =
    (None, skip (Skipped p) (log_io OpenBinary p (log_io Getsize p st)))"
  using assms by (simp add: try_body_def Let_def)

lemma try_body_undecodable:
  assumes "length bs \<le> MAX_FILE_SIZE" and "\<not> is_binary_file bs" and "\<not> utf8_valid bs"
  shows "try_body p bs st =
    (Some UnicodeDecodeError, log_io OpenText p (log_io OpenBinary p (log_io Getsize p st)))"
  using assms
  by (simp add: try_body_def log_io_def add_file_core_def read_node_def Let_def)


subsection \<open>The size ceiling\<close>






subsection \<open>Pruned directories\<close>

lemma inside_child: "root @ [file] \<in> inside root"
  by (simp add: inside_def under_pruned_def strict_prefix_def)

lemma inside_descend:
  assumes "\<not> excluded_name d" and "p \<in> inside (root @ [d])"
  shows "p \<in> inside root"
proof -
  from assms(2) have sp: "strict_prefix (root @ [d]) p"
    and nu: "\<not> under_pruned (root @ [d]) p" by (simp_all add: inside_def)
  from sp obtain rel where p: "p = (root @ [d]) @ rel" and rel: "rel \<noteq> []"
    by (auto simp: strict_prefix_def prefix_def)
  from nu p have np: "\<not> list_ex excluded_name (butlast rel)"
    by (simp add: under_pruned_def)
  have "butlast (d # rel) = d # butlast rel" using rel by simp
  with np assms(1) have "\<not> list_ex excluded_name (butlast (d # rel))" by simp
  moreover have "p = root @ d # rel" using p by simp
  ultimately show ?thesis using rel
    by (simp add: inside_def under_pruned_def strict_prefix_def)
qed

lemma stays_inside_refl: "stays_inside root st st"
  by (auto simp: stays_inside_def)

lemma stays_inside_trans:
  "stays_inside root st st' \<Longrightarrow> stays_inside root st' st'' \<Longrightarrow> stays_inside root st st''"
  by (auto simp: stays_inside_def)

lemma stays_inside_descend:
  assumes "\<not> excluded_name d" and "stays_inside (root @ [d]) st st'"
  shows "stays_inside root st st'"
proof -
  have "inside (root @ [d]) \<subseteq> inside root"
    using inside_descend [OF assms(1)] by blast
  moreover from this have "entries_inside (root @ [d]) \<subseteq> entries_inside root"
    by (auto simp: entries_inside_def)
  ultimately show ?thesis using assms(2) unfolding stays_inside_def by blast
qed

lemma stays_inside_skip:
  "skipped_path s \<in> inside root \<Longrightarrow> stays_inside root st (skip s st)"
  by (auto simp: stays_inside_def touched_def skip_def)

lemma stays_inside_log:
  "p \<in> inside root \<Longrightarrow> stays_inside root st (log_io op p st)"
  by (auto simp: stays_inside_def touched_def log_io_def)

lemma stays_inside_accepted:
  "p \<in> inside root \<Longrightarrow> stays_inside root st (accepted p bs st)"
  by (auto simp: stays_inside_def touched_def accepted_def entries_inside_def)

lemma try_body_stays:
  assumes "try_body p bs st = (r, st')" and "p \<in> inside root"
  shows "stays_inside root st st'"
proof -
  note l = stays_inside_log [OF assms(2)]
  have k: "\<And>s st. skipped_path s = p \<Longrightarrow> stays_inside root st (skip s st)"
    using assms(2) by (simp add: stays_inside_skip)
  consider (big) "MAX_FILE_SIZE < length bs"
    | (bin) "length bs \<le> MAX_FILE_SIZE" "is_binary_file bs"
    | (bad) "length bs \<le> MAX_FILE_SIZE" "\<not> is_binary_file bs" "\<not> utf8_valid bs"
    | (ok) "length bs \<le> MAX_FILE_SIZE" "\<not> is_binary_file bs" "utf8_valid bs"
    by fastforce
  then show ?thesis
  proof cases
    case big
    with assms(1) have "st' = skip (ExceedsSizeLimit p) (log_io Getsize p st)"
      by (simp add: try_body_oversize)
    then show ?thesis
      using stays_inside_trans [OF l [of st Getsize] k [of "ExceedsSizeLimit p"]] by simp
  next
    case bin
    with assms(1) have "st' = skip (Skipped p) (log_io OpenBinary p (log_io Getsize p st))"
      by (simp add: try_body_binary)
    then show ?thesis
      using stays_inside_trans [OF l [of st Getsize]
          stays_inside_trans [OF l [of _ OpenBinary] k [of "Skipped p"]]] by simp
  next
    case bad
    with assms(1) have "st' = log_io OpenText p (log_io OpenBinary p (log_io Getsize p st))"
      by (simp add: try_body_undecodable)
    then show ?thesis
      using stays_inside_trans [OF l [of st Getsize]
          stays_inside_trans [OF l [of _ OpenBinary] l [of _ OpenText]]] by simp
  next
    case ok
    with assms(1) have "st' = accepted p bs st" by (simp add: try_body_accept)
    then show ?thesis using stays_inside_accepted [OF assms(2)] by simp
  qed
qed

lemma process_file_stays:
  assumes "process_file root f bs st = (r, st')"
  shows "stays_inside root st st'"
proof -
  have i: "root @ [f] \<in> inside root" by (rule inside_child)
  have k: "\<And>st. stays_inside root st (skip (Skipped (root @ [f])) st)"
    using i by (simp add: stays_inside_skip)
  show ?thesis
  proof (cases "(startswith_dot f \<or> f \<in> set EXCLUDED_FILES) \<or> excluded_extension f")
    case True
    with assms have "st' = skip (Skipped (root @ [f])) st"
      by (auto simp: process_file_def split: if_splits)
    with k show ?thesis by simp
  next
    case False
    obtain r1 st1 where t: "try_body (root @ [f]) bs st = (r1, st1)"
      by (cases "try_body (root @ [f]) bs st")
    from try_body_stays [OF t i] have s1: "stays_inside root st st1" .
    from assms False t have "st' = st1 \<or> st' = skip (Skipped (root @ [f])) st1"
      by (auto simp: process_file_def split: option.splits if_splits)
    then show ?thesis
      using s1 stays_inside_trans [OF s1 k [of st1]] by auto
  qed
qed

lemma process_files_stays:
  "process_files root fs st = (r, st') \<Longrightarrow> stays_inside root st st'"
proof (induction root fs st rule: process_files.induct)
  case (1 root st)
  then show ?case by (simp add: stays_inside_refl)
next
  case (2 root f bs rest st)
  show ?case
  proof (cases "total_files_processed st \<ge> MAX_FILES_TO_PROCESS")
    case True
    with "2.prems" show ?thesis by (simp add: stays_inside_refl)
  next
    case False
    obtain r1 st1 where pf: "process_file root f bs st = (r1, st1)" by (cases "process_file root f bs st")
    from process_file_stays [OF pf] have s1: "stays_inside root st st1" .
    show ?thesis
    proof (cases r1)
      case None
      with "2.prems" False pf have "process_files root rest st1 = (r, st')" by simp
      from "2.IH" [OF _ pf [symmetric] _ this] False None
      have "stays_inside root st1 st'" by simp
      with s1 show ?thesis by (rule stays_inside_trans)
    next
      case (Some e)
      with "2.prems" False pf have "st' = st1" by simp
      with s1 show ?thesis by simp
    qed
  qed
qed

lemma walk_stays:
  "walk root n st = (r, st') \<Longrightarrow> stays_inside root st st'"
  "walk_subdirs root l st = (r, st') \<Longrightarrow> stays_inside root st st'"
proof (induction root n st and root l st arbitrary: r st' and r st' rule: walk_walk_subdirs.induct)
  case (1 root bs st)
  then show ?case by (simp add: stays_inside_refl)
next
  case (2 root l st)
  show ?case
  proof (cases "limit_warned st \<or> total_files_processed st \<ge> MAX_FILES_TO_PROCESS")
    case True
    with "2.prems" show ?thesis
      by (auto simp: stays_inside_def touched_def split: if_splits)
  next
    case False
    obtain r1 st1 where pf: "process_files root (files_of l) st = (r1, st1)"
      by (cases "process_files root (files_of l) st")
    from process_files_stays [OF pf] have s1: "stays_inside root st st1" .
    show ?thesis
    proof (cases r1)
      case None
      with "2.prems" False pf have w: "walk_subdirs root l st1 = (r, st')" by simp
      from False pf None have "stays_inside root st1 st'"
        by (intro "2.IH" [OF _ _ _ _ w]) auto
      with s1 show ?thesis by (rule stays_inside_trans)
    next
      case (Some e)
      with "2.prems" False pf have "st' = st1" by simp
      with s1 show ?thesis by simp
    qed
  qed
next
  case (3 root st)
  then show ?case by (simp add: stays_inside_refl)
next
  case (4 root d n rest st)
  show ?case
  proof (cases n)
    case (File bs)
    with "4.prems" have "walk_subdirs root rest st = (r, st')" by simp
    with "4.IH"(1) [OF File] show ?thesis by simp
  next
    case (Dir l')
    show ?thesis
    proof (cases "startswith_dot d \<or> d \<in> set EXCLUDED_FILES")
      case True
      with "4.prems" Dir have "walk_subdirs root rest st = (r, st')" by simp
      with "4.IH"(2) [OF Dir True] show ?thesis by simp
    next
      case False
      then have ne: "\<not> excluded_name d" by (simp add: excluded_name_def)
      obtain r1 st1 where w: "walk (root @ [d]) n st = (r1, st1)"
        by (cases "walk (root @ [d]) n st")
      from "4.IH"(3) [OF Dir False w] have "stays_inside (root @ [d]) st st1" .
      with ne have s1: "stays_inside root st st1" by (rule stays_inside_descend)
      show ?thesis
      proof (cases r1)
        case None
        with "4.prems" Dir False w have ws: "walk_subdirs root rest st1 = (r, st')" by simp
        from "4.IH"(4) [OF Dir False w [symmetric] _ ws] None
        have "stays_inside root st1 st'" by simp
        with s1 show ?thesis by (rule stays_inside_trans)
      next
        case (Some e)
        with "4.prems" Dir False w have "st' = st1" by simp
        with s1 show ?thesis by simp
      qed
    qed
  qed
qed

text \<open>
  Claim C8. A path that lies inside a directory below the walk's root whose name is in
  the denylist or starts with a dot is not touched by the walk: its size is not asked
  for, it is not opened for the sniff or for reading, and it is in neither report list.
  Every entry that the walk appends to the conversation is the entry of a path outside
  such directories. This holds for every tree and also when the walk ends early or with
  an exception.
\<close>

theorem walk_never_touches_pruned:
  assumes "under_pruned directory_path p"
  shows "p \<notin> touched (snd (add_directory_to_conversation t directory_path history))
       \<and> set (conversation_history (snd (add_directory_to_conversation t directory_path history)))
           \<subseteq> set history \<union> {file_entry q c |q c. \<not> under_pruned directory_path q}"
proof -
  let ?st = "snd (add_directory_to_conversation t directory_path history)"
  have s: "stays_inside directory_path (init_walk history) ?st"
  proof (cases "lookup directory_path t")
    case (Inl e)
    then show ?thesis
      by (simp add: add_directory_to_conversation_def stays_inside_refl)
  next
    case (Inr n)
    obtain r st where w: "walk directory_path n (init_walk history) = (r, st)"
      by (cases "walk directory_path n (init_walk history)")
    from walk_stays(1) [OF w] w Inr show ?thesis
      by (simp add: add_directory_to_conversation_def)
  qed
  have t0: "touched (init_walk history) = {}"
    by (simp add: touched_def init_walk_def)
  have h0: "conversation_history (init_walk history) = history"
    by (simp add: init_walk_def)
  from s t0 have "touched ?st \<subseteq> inside directory_path"
    by (simp add: stays_inside_def)
  with assms have a: "p \<notin> touched ?st" by (auto simp: inside_def)
  from s h0 have "set (conversation_history ?st) \<subseteq> set history \<union> entries_inside directory_path"
    by (simp add: stays_inside_def)
  moreover have "entries_inside directory_path
      \<subseteq> {file_entry q c |q c. \<not> under_pruned directory_path q}"
    unfolding entries_inside_def inside_def by blast
  ultimately have b: "set (conversation_history ?st)
      \<subseteq> set history \<union> {file_entry q c |q c. \<not> under_pruned directory_path q}"
    by blast
  from a b show ?thesis by simp
qed

theorem walk_never_touches_pruned_witness:
  "under_pruned [''proj''] [''proj'', ''src'', ''.git'', ''config'']
   \<and> lookup [''proj'', ''src'', ''.git'', ''config''] pruned_tree = Inr (File ''y'')
   \<and> [''proj'', ''src'', ''.git'', ''config'']
       \<notin> touched (snd (add_directory_to_conversation pruned_tree [''proj''] []))
   \<and> set (conversation_history (snd (add_directory_to_conversation pruned_tree [''proj''] [])))
       \<subseteq> set [] \<union> {file_entry q c |q c. \<not> under_pruned [''proj''] q}"
proof -
  have h: "under_pruned [''proj''] [''proj'', ''src'', ''.git'', ''config'']"
    by (simp add: under_pruned_def excluded_name_def startswith_dot_def)
  have l: "lookup [''proj'', ''src'', ''.git'', ''config''] pruned_tree = Inr (File ''y'')"
    by (simp add: pruned_tree_def)
  from walk_never_touches_pruned [OF h, of pruned_tree "[]"] h l show ?thesis by simp
qed


subsection \<open>The file limit\<close>

text \<open>
  On a tree whose eligible files all decode as UTF-8 the walk returns without an
  exception, and the counter and the list of added files end at the number of eligible
  files or at the limit, whichever is smaller.
\<close>

lemma process_file_eligible:
  assumes "eligible f bs" and "utf8_valid bs"
  shows "process_file root f bs st = (None, accepted (root @ [f]) bs st)"
  using assms
  by (simp add: process_file_def eligible_def excluded_name_def try_body_accept)

lemma process_file_ineligible:
  assumes "\<not> eligible f bs"
  shows "\<exists>st'. process_file root f bs st = (None, st')
            \<and> total_files_processed st' = total_files_processed st
            \<and> added_files st' = added_files st
            \<and> limit_warned st' = limit_warned st"
proof (cases "excluded_name f \<or> excluded_extension f")
  case True
  then show ?thesis
    by (auto simp: process_file_def excluded_name_def skip_def)
next
  case False
  with assms have "MAX_FILE_SIZE < length bs \<or> (length bs \<le> MAX_FILE_SIZE \<and> is_binary_file bs)"
    by (auto simp: eligible_def)
  with False show ?thesis
    by (auto simp: process_file_def excluded_name_def try_body_oversize try_body_binary
        skip_def log_io_def)
qed

lemma advanced_refl_at_limit:
  "MAX_FILES_TO_PROCESS \<le> total_files_processed st \<Longrightarrow>
   total_files_processed st \<le> MAX_FILES_TO_PROCESS \<Longrightarrow> advanced k st st"
  by (simp add: advanced_def)

lemma advanced_zero:
  "total_files_processed st \<le> MAX_FILES_TO_PROCESS \<Longrightarrow> advanced 0 st st"
  by (simp add: advanced_def)

lemma advanced_trans:
  "advanced j st st' \<Longrightarrow> advanced k st' st'' \<Longrightarrow> advanced (j + k) st st''"
  by (auto simp: advanced_def)

lemma process_files_count:
  assumes "text_files fs" and "total_files_processed st \<le> MAX_FILES_TO_PROCESS"
  shows "\<exists>st'. process_files root fs st = (None, st')
            \<and> advanced (eligible_files fs) st st'
            \<and> limit_warned st' = limit_warned st"
  using assms
proof (induction fs arbitrary: st)
  case Nil
  then show ?case by (simp add: eligible_files_def advanced_zero)
next
  case (Cons x fs)
  obtain f bs where x: "x = (f, bs)" by (cases x)
  show ?case
  proof (cases "total_files_processed st \<ge> MAX_FILES_TO_PROCESS")
    case True
    with Cons.prems x show ?thesis by (simp add: advanced_refl_at_limit)
  next
    case False
    from Cons.prems x have tf: "text_files fs" by simp
    show ?thesis
    proof (cases "eligible f bs")
      case True
      with Cons.prems x have "utf8_valid bs" by simp
      with True have pf: "process_file root f bs st = (None, accepted (root @ [f]) bs st)"
        by (rule process_file_eligible)
      let ?s1 = "accepted (root @ [f]) bs st"
      have t1: "total_files_processed ?s1 \<le> MAX_FILES_TO_PROCESS"
        using False by (simp add: accepted_def)
      from Cons.IH [OF tf t1] obtain st' where
        r: "process_files root fs ?s1 = (None, st')" and
        a: "advanced (eligible_files fs) ?s1 st'" and
        w: "limit_warned st' = limit_warned ?s1" by blast
      have "advanced 1 st ?s1" using False by (simp add: advanced_def accepted_def)
      from advanced_trans [OF this a] True x
      have "advanced (eligible_files (x # fs)) st st'" by (simp add: eligible_files_def)
      moreover have "limit_warned st' = limit_warned st" using w by (simp add: accepted_def)
      moreover have "process_files root (x # fs) st = (None, st')"
        using False pf r x by simp
      ultimately show ?thesis by blast
    next
      case ne: False
      from process_file_ineligible [OF ne, of root st] obtain s1 where
        pf: "process_file root f bs st = (None, s1)" and
        e1: "total_files_processed s1 = total_files_processed st" and
        e2: "added_files s1 = added_files st" and
        e3: "limit_warned s1 = limit_warned st" by blast
      have t1: "total_files_processed s1 \<le> MAX_FILES_TO_PROCESS"
        using Cons.prems e1 by simp
      from Cons.IH [OF tf t1] obtain st' where
        r: "process_files root fs s1 = (None, st')" and
        a: "advanced (eligible_files fs) s1 st'" and
        w: "limit_warned st' = limit_warned s1" by blast
      from a e1 e2 ne x have "advanced (eligible_files (x # fs)) st st'"
        by (simp add: advanced_def eligible_files_def)
      moreover have "limit_warned st' = limit_warned st" using w e3 by simp
      moreover have "process_files root (x # fs) st = (None, st')"
        using False pf r x by simp
      ultimately show ?thesis by blast
    qed
  qed
qed


lemma advanced_inv:
  "advanced k st st' \<Longrightarrow> limit_warned st' = limit_warned st \<Longrightarrow> \<not> limit_warned st \<Longrightarrow>
   walk_inv st'"
  by (simp add: advanced_def walk_inv_def)

lemma walk_count:
  "text_tree n \<Longrightarrow> walk_inv st \<Longrightarrow>
   \<exists>st'. walk root n st = (None, st') \<and> walk_inv st' \<and> advanced (eligible_count n) st st'"
  "text_subdirs l \<Longrightarrow> walk_inv st \<Longrightarrow>
   \<exists>st'. walk_subdirs root l st = (None, st') \<and> walk_inv st'
         \<and> advanced (eligible_count_subdirs l) st st'"
proof (induction root n st and root l st rule: walk_walk_subdirs.induct)
  case (1 root bs st)
  then show ?case by (simp add: advanced_zero walk_inv_def)
next
  case (2 root l st)
  from "2.prems" have tf: "text_files (files_of l)" and ts: "text_subdirs l" by simp_all
  from "2.prems" have le: "total_files_processed st \<le> MAX_FILES_TO_PROCESS"
    by (simp add: walk_inv_def)
  show ?case
  proof (cases "limit_warned st")
    case True
    with "2.prems" have "MAX_FILES_TO_PROCESS \<le> total_files_processed st"
      by (simp add: walk_inv_def)
    from advanced_refl_at_limit [OF this le] True "2.prems"(2) show ?thesis by simp
  next
    case nw: False
    show ?thesis
    proof (cases "total_files_processed st \<ge> MAX_FILES_TO_PROCESS")
      case True
      with le nw show ?thesis by (simp add: walk_inv_def advanced_def)
    next
      case False
      from process_files_count [OF tf le, of root] obtain s1 where
        pf: "process_files root (files_of l) st = (None, s1)" and
        a1: "advanced (eligible_files (files_of l)) st s1" and
        w1: "limit_warned s1 = limit_warned st" by blast
      from advanced_inv [OF a1 w1 nw] have i1: "walk_inv s1" .
      from "2.IH" [OF nw False pf [symmetric] refl ts i1] obtain st' where
        w: "walk_subdirs root l s1 = (None, st')" and i: "walk_inv st'" and
        a2: "advanced (eligible_count_subdirs l) s1 st'" by blast
      from advanced_trans [OF a1 a2] have "advanced (eligible_count (Dir l)) st st'" by simp
      moreover have "walk root (Dir l) st = (None, st')" using nw False pf w by simp
      ultimately show ?thesis using i by blast
    qed
  qed
next
  case (3 root st)
  then show ?case by (simp add: advanced_zero walk_inv_def)
next
  case (4 root d n rest st)
  from "4.prems" have tn: "text_tree n" and tr: "text_subdirs rest" by simp_all
  show ?case
  proof (cases n)
    case (File bs)
    from "4.IH"(1) [OF File tr "4.prems"(2)] File show ?thesis by simp
  next
    case (Dir l')
    show ?thesis
    proof (cases "startswith_dot d \<or> d \<in> set EXCLUDED_FILES")
      case True
      from "4.IH"(2) [OF Dir True tr "4.prems"(2)] Dir True show ?thesis
        by (simp add: excluded_name_def)
    next
      case False
      from "4.IH"(3) [OF Dir False tn "4.prems"(2)] obtain s1 where
        w1: "walk (root @ [d]) n st = (None, s1)" and i1: "walk_inv s1" and
        a1: "advanced (eligible_count n) st s1" by blast
      from "4.IH"(4) [OF Dir False w1 [symmetric] refl tr i1] obtain st' where
        w: "walk_subdirs root rest s1 = (None, st')" and i: "walk_inv st'" and
        a2: "advanced (eligible_count_subdirs rest) s1 st'" by blast
      from advanced_trans [OF a1 a2] Dir False
      have "advanced (eligible_count_subdirs ((d, n) # rest)) st st'"
        by (simp add: excluded_name_def)
      moreover have "walk_subdirs root ((d, n) # rest) st = (None, st')"
        using Dir False w1 w by simp
      ultimately show ?thesis using i by blast
    qed
  qed
qed

lemma walk_accepts_up_to_limit:
  assumes "lookup directory_path t = Inr n" and "text_tree n"
  shows "\<exists>st. add_directory_to_conversation t directory_path history = (None, st)
           \<and> total_files_processed st = min MAX_FILES_TO_PROCESS (eligible_count n)
           \<and> length (added_files st) = min MAX_FILES_TO_PROCESS (eligible_count n)"
proof -
  have "walk_inv (init_walk history)" by (simp add: walk_inv_def init_walk_def)
  from walk_count(1) [OF assms(2) this, of directory_path] obtain st where
    w: "walk directory_path n (init_walk history) = (None, st)" and
    a: "advanced (eligible_count n) (init_walk history) st" by blast
  from a have "total_files_processed st = min MAX_FILES_TO_PROCESS (eligible_count n)"
    and "length (added_files st) = min MAX_FILES_TO_PROCESS (eligible_count n)"
    by (simp_all add: advanced_def init_walk_def)
  with w assms(1) show ?thesis by (simp add: add_directory_to_conversation_def)
qed

subsection \<open>A directory with more files than the limit and no subdirectory\<close>

lemma digit_not_dot: "k < 10 \<Longrightarrow> digit k \<noteq> CHR ''.''"
proof
  assume k: "k < 10" and "digit k = CHR ''.''"
  then have "(of_char (char_of (48 + k)) :: nat) = of_char CHR ''.''"
    by (simp add: digit_def)
  with k show False by simp
qed

lemma splitext_ext_no_dot: "CHR ''.'' \<notin> set p \<Longrightarrow> splitext_ext p = []"
proof -
  assume "CHR ''.'' \<notin> set p"
  then have "dropWhile (\<lambda>c. c \<noteq> CHR ''.'') (rev p) = []"
    by (auto simp: dropWhile_eq_Nil_conv)
  then show ?thesis by (simp add: splitext_ext_def)
qed

lemma flat_name_eligible:
  assumes "i < 1001"
  shows "eligible (flat_name i) []"
proof -
  have d: "i div 1000 < 10" using assms by simp
  have "CHR ''.'' \<notin> set (flat_name i)"
    using digit_not_dot [OF d] digit_not_dot [of "i div 100 mod 10"]
      digit_not_dot [of "i div 10 mod 10"] digit_not_dot [of "i mod 10"]
    by (auto simp: flat_name_def)
  then have "splitext_ext (flat_name i) = []" by (rule splitext_ext_no_dot)
  then have e: "\<not> excluded_extension (flat_name i)"
    by (simp add: excluded_extension_def EXCLUDED_EXTENSIONS_def)
  have n: "\<not> excluded_name (flat_name i)"
    by (simp add: excluded_name_def startswith_dot_def flat_name_def EXCLUDED_FILES_def)
  from e n show ?thesis by (simp add: eligible_def is_binary_file_def)
qed

lemma files_of_map_File:
  "files_of (map (\<lambda>i. (g i, File (h i))) xs) = map (\<lambda>i. (g i, h i)) xs"
  by (induction xs) simp_all

lemma eligible_files_all:
  "\<forall>x\<in>set fs. eligible (fst x) (snd x) \<Longrightarrow> eligible_files fs = length fs"
  by (induction fs) (auto simp: eligible_files_def)

lemma text_files_all: "\<forall>x\<in>set fs. utf8_valid (snd x) \<Longrightarrow> text_files fs"
  by (induction fs) auto

lemma walk_subdirs_files_only:
  "walk_subdirs root (map (\<lambda>i. (g i, File (h i))) xs) st = (None, st)"
  by (induction xs) simp_all

lemma eligible_count_subdirs_files_only:
  "eligible_count_subdirs (map (\<lambda>i. (g i, File (h i))) xs) = 0"
  by (induction xs) simp_all

text \<open>
  Claim C5. The claim is that on a tree with more eligible files than the limit the
  walk accepts exactly the limit and that the partial result is reported. The count is
  as claimed (\<open>walk_accepts_up_to_limit\<close>), but the warning about the limit is printed
  only by the test at the head of the outer loop, which runs when \<^verbatim>\<open>os.walk\<close> yields a
  further directory; the test of the inner loop leaves silently. On the directory
  \<^verbatim>\<open>/big\<close> with 1001 eligible files and no subdirectory the walk returns without an
  exception, accepts 1000 files and prints no warning, so that nothing in its report
  marks the result as partial.
\<close>

theorem flat_directory_no_limit_warning:
  "lookup [''big''] flat_tree = Inr (Dir flat_files)
   \<and> eligible_count (Dir flat_files) = 1001
   \<and> fst (add_directory_to_conversation flat_tree [''big''] []) = None
   \<and> length (added_files (snd (add_directory_to_conversation flat_tree [''big''] []))) = 1000
   \<and> \<not> limit_warned (snd (add_directory_to_conversation flat_tree [''big''] []))"
proof -
  let ?fs = "map (\<lambda>i. (flat_name i, [])) [0..<1001]"
  have f: "files_of flat_files = ?fs"
    unfolding flat_files_def by (rule files_of_map_File)
  have el: "eligible_files ?fs = 1001"
    using eligible_files_all [of ?fs] flat_name_eligible by simp
  have tx: "text_files ?fs" by (rule text_files_all) simp
  have lk: "lookup [''big''] flat_tree = Inr (Dir flat_files)"
    by (simp add: flat_tree_def)
  have t0: "total_files_processed (init_walk []) \<le> MAX_FILES_TO_PROCESS"
    by (simp add: init_walk_def)
  from process_files_count [OF tx t0, of "[''big'']"] obtain s1 where
    pf: "process_files [''big''] ?fs (init_walk []) = (None, s1)" and
    a: "advanced (eligible_files ?fs) (init_walk []) s1" and
    w: "limit_warned s1 = limit_warned (init_walk [])" by blast
  have ws: "walk_subdirs [''big''] flat_files s1 = (None, s1)"
    unfolding flat_files_def by (rule walk_subdirs_files_only)
  have "walk [''big''] (Dir flat_files) (init_walk []) = (None, s1)"
    using pf ws f by (simp add: init_walk_def MAX_FILES_TO_PROCESS_def)
  with lk have r: "add_directory_to_conversation flat_tree [''big''] [] = (None, s1)"
    by (simp add: add_directory_to_conversation_def)
  have c: "eligible_count_subdirs flat_files = 0"
    unfolding flat_files_def by (rule eligible_count_subdirs_files_only)
  from a el have "length (added_files s1) = 1000"
    by (simp add: advanced_def init_walk_def MAX_FILES_TO_PROCESS_def)
  moreover from w have "\<not> limit_warned s1" by (simp add: init_walk_def)
  moreover have "eligible_count (Dir flat_files) = 1001" using f el c by simp
  ultimately show ?thesis using lk r by simp
qed

section \<open>Properties of the response interpreter\<close>

lemma those_map_None:
  "those (map f xs) = None \<longleftrightarrow> (\<exists>x\<in>set xs. f x = None)"
  by (induction xs) (auto split: option.splits)

lemma list_field_bad_entry:
  assumes "map_of obj name = Some (JArray xs)" and "x \<in> set xs" and "entry x = None"
  shows "list_field entry obj name = None"
proof -
  from assms(2,3) have "those (map entry xs) = None" by (auto simp: those_map_None)
  with assms(1) show ?thesis by (simp add: list_field_def)
qed

lemma turn_interpretation_failed:
  "interpret_response raw = Inl SchemaError \<Longrightarrow> turn cwd raw confirm d = (InterpretationFailed, d)"
  by (simp add: turn_def)

text \<open>
  A valid payload is applied: with a reply added to the example payload the file it
  asks for is created.
\<close>

lemma turn_applies_valid_payload:
  "turn [] (JObject ((''assistant_reply'', JString ''ok'') # no_reply_payload)) True edit_disk =
    (TurnDone,
     \<lparr>root_dir = [(''home'', Dir [(''notes.txt'', File ''A-B-A''), (''new.py'', File ''x'')])],
      writes = [([''home'', ''new.py''], ''x'')]\<rparr>)"
  by (simp add: turn_def interpret_response_def text_field_def list_field_def
      interpret_create_def no_reply_payload_def create_file_def instruction_path_def
      path_components_def is_absolute_def edit_disk_def inside_model_def listed_def
      plain_path_def plain_component_def isdir_def tree_def)

text \<open>
  Claim C6. A payload object in which the reply is missing or is not text, or in which
  an entry of the creation list or of the edit list lacks a field or has one that is not
  text, fails interpretation with \<open>SchemaError\<close>, and the turn then leaves the disk as it
  was: no file is created or edited and no write is logged.
\<close>

theorem schema_error_applies_nothing:
  assumes "(\<forall>s. map_of obj ''assistant_reply'' \<noteq> Some (JString s))
         \<or> (\<exists>xs x. map_of obj ''files_to_create'' = Some (JArray xs)
                  \<and> x \<in> set xs \<and> interpret_create x = None)
         \<or> (\<exists>xs x. map_of obj ''files_to_edit'' = Some (JArray xs)
                  \<and> x \<in> set xs \<and> interpret_edit x = None)"
  shows "interpret_response (JObject obj) = Inl SchemaError
       \<and> turn cwd (JObject obj) confirm d = (InterpretationFailed, d)"
proof -
  have "interpret_response (JObject obj) = Inl SchemaError"
  proof (cases "text_field obj ''assistant_reply''")
    case None
    then show ?thesis by (simp add: interpret_response_def)
  next
    case (Some reply)
    then have "map_of obj ''assistant_reply'' = Some (JString reply)"
      by (auto simp: text_field_def split: option.splits json.splits)
    with assms consider
      (c) "list_field interpret_create obj ''files_to_create'' = None"
      | (e) "list_field interpret_edit obj ''files_to_edit'' = None"
      by (auto dest: list_field_bad_entry)
    then show ?thesis
      using Some by cases (auto simp: interpret_response_def split: option.splits)
  qed
  then show ?thesis by (simp add: turn_interpretation_failed)
qed

theorem schema_error_applies_nothing_witness:
  "(\<forall>s. map_of no_reply_payload ''assistant_reply'' \<noteq> Some (JString s))
   \<and> interpret_response (JObject no_reply_payload) = Inl SchemaError
   \<and> turn [] (JObject no_reply_payload) True edit_disk = (InterpretationFailed, edit_disk)"
proof -
  have h: "\<forall>s. map_of no_reply_payload ''assistant_reply'' \<noteq> Some (JString s)"
    by (simp add: no_reply_payload_def)
  from schema_error_applies_nothing [OF disjI1, OF h, of "[]" True edit_disk] h
  show ?thesis by simp
qed

end
